theory Spec2Isabelle
  imports Main
begin

section \<open>The conversation engine of backend/webhook.js\<close>

text \<open>
  The theory embeds the registration flow of \<^verbatim>\<open>backend/webhook.js\<close>: the POST
  \<^verbatim>\<open>/webhook\<close> handler, the adapter \<^verbatim>\<open>validateWithOpenAI\<close>, the notifier
  \<^verbatim>\<open>sendText\<close> and the ledger operation \<^verbatim>\<open>updateCodeInDatabase\<close>. The source file
  holds the server twice; the model follows the first text, in which only the two ledger
  lookups of the handler stand inside a \<^verbatim>\<open>try\<close> block.

  The handler is asynchronous code over three external services (Redis, PostgreSQL, two
  HTTP APIs). Every \<^verbatim>\<open>await\<close> on one of them is one step of the model: it appends an
  event to a trace, it may be rejected (the promise rejects and the JavaScript exception
  travels to the nearest \<^verbatim>\<open>catch\<close>), and otherwise it acts on an explicit world.
  Which calls are rejected, what the language model answers and what other requests do to
  the ledger in the meantime are parameters of the model, so a theorem quantified over the
  environment holds for every behaviour of the services.
\<close>

subsection \<open>Data\<close>

text \<open>A Redis hash, as \<^verbatim>\<open>hGetAll\<close> returns it: a finite map from field names to strings.\<close>

type_synonym session = "string \<rightharpoonup> string"

text \<open>
  One row of the table \<^verbatim>\<open>codes\<close>, with the columns the queries of the file read and
  write. A column that may be \<^verbatim>\<open>NULL\<close> is an option. The import script inserts
  \<^verbatim>\<open>(code, code_id)\<close> with \<^verbatim>\<open>ON CONFLICT (code_id) DO NOTHING\<close>; the schema of the
  table is not part of the sources.
\<close>

record code_row =
  code_id :: string
  code :: string
  status :: string
  phone_number :: "string option"
  name :: "string option"
  email :: "string option"
  city :: "string option"
  created_at :: "nat option"
  is_winner :: bool

text \<open>
  The object the language model is asked to produce,
  \<^verbatim>\<open>{ message, is_valid, value }\<close>; the field \<^verbatim>\<open>value\<close> is written \<open>value'\<close>.
\<close>

record validation =
  message :: string
  is_valid :: bool
  value' :: string

text \<open>The body of an inbound event, as far as the handler's optional chain reads it.\<close>

record wa_message =
  msg_from :: string
  msg_text_body :: "string option"

record wa_value =
  messages :: "wa_message list"

record wa_change =
  change_value :: "wa_value option"

record wa_entry =
  changes :: "wa_change list"

record wa_body =
  entry :: "wa_entry list"

text \<open>The JavaScript exceptions of the model, by the call that raises them.\<close>

datatype exn = RedisError | DbError | HttpError | OpenAIError | TypeError | SyntaxError

text \<open>One event per call to an external service, in the order the calls are made.\<close>

datatype effect =
    HGetAll string
  | HSet string "(string \<times> string) list"
  | Expire string nat
  | Del string
  | SelectByEmail string
  | SelectActiveCode string
  | UpdateCode string "string option" "string option" "string option" string
  | SendText string string
  | ChatCompletion string string

record world =
  sessions :: "string \<rightharpoonup> session"
  deadline :: "string \<rightharpoonup> nat"
  codes :: "code_row list"
  outbox :: "(string \<times> string) list"
  trace :: "effect list"
  clock :: nat

text \<open>
  The environment of one request: \<open>fails k\<close> says that the \<open>k\<close>-th external call of the
  trace is rejected; \<open>completion\<close> is the list of the contents of the choices the chat
  completion returns for a user input, a step and a session snapshot; \<open>json_parse\<close> is
  \<^verbatim>\<open>JSON.parse\<close> read at the type of the validation object (\<open>None\<close> when it throws);
  \<open>race\<close> is what other requests commit to the ledger between this request's lookup of the
  code and its claim.
\<close>

record env =
  fails :: "nat \<Rightarrow> bool"
  completion :: "string \<Rightarrow> string \<Rightarrow> session \<Rightarrow> string list"
  json_parse :: "string \<Rightarrow> validation option"
  race :: "code_row list \<Rightarrow> code_row list"

subsection \<open>Asynchronous calls with exceptions\<close>

type_synonym 'a io = "world \<Rightarrow> (exn + 'a) \<times> world"

definition ret :: "'a \<Rightarrow> 'a io" where
  "ret x w = (Inr x, w)"

definition raise :: "exn \<Rightarrow> 'a io" where
  "raise e w = (Inl e, w)"

definition io_bind :: "'a io \<Rightarrow> ('a \<Rightarrow> 'b io) \<Rightarrow> 'b io" where
  "io_bind m f w = (case m w of (Inl e, w') \<Rightarrow> (Inl e, w') | (Inr x, w') \<Rightarrow> f x w')"

definition try_catch :: "'a io \<Rightarrow> (exn \<Rightarrow> 'a io) \<Rightarrow> 'a io" where
  "try_catch m h w = (case m w of (Inl e, w') \<Rightarrow> h e w' | (Inr x, w') \<Rightarrow> (Inr x, w'))"

text \<open>
  An awaited call to an external service: the event is logged, and the call is rejected
  with the given exception, leaving the service as it was, when the environment says so.
\<close>

definition external :: "env \<Rightarrow> effect \<Rightarrow> exn \<Rightarrow> (world \<Rightarrow> 'a \<times> world) \<Rightarrow> 'a io" where
  "external e ev x act w =
     (let w1 = w\<lparr>trace := trace w @ [ev]\<rparr>
      in if fails e (length (trace w)) then (Inl x, w1)
         else (case act w1 of (r, w2) \<Rightarrow> (Inr r, w2)))"

subsection \<open>The session store (Redis)\<close>

text \<open>
  \<^verbatim>\<open>hGetAll\<close> returns the empty object for a missing key; \<^verbatim>\<open>hSet\<close> merges the given
  fields into the hash and leaves the key's time to live alone; \<^verbatim>\<open>expire\<close> sets the
  time to live of an existing key; \<^verbatim>\<open>del\<close> removes the key.
\<close>

definition session_of :: "world \<Rightarrow> string \<Rightarrow> session" where
  "session_of w key = (case sessions w key of None \<Rightarrow> Map.empty | Some h \<Rightarrow> h)"

definition hGetAll :: "env \<Rightarrow> string \<Rightarrow> session io" where
  "hGetAll e key = external e (HGetAll key) RedisError (\<lambda>w. (session_of w key, w))"

definition hSet :: "env \<Rightarrow> string \<Rightarrow> (string \<times> string) list \<Rightarrow> unit io" where
  "hSet e key fvs =
     external e (HSet key fvs) RedisError
       (\<lambda>w. ((), w\<lparr>sessions := (sessions w)(key \<mapsto> session_of w key ++ map_of fvs)\<rparr>))"

definition expire :: "env \<Rightarrow> string \<Rightarrow> nat \<Rightarrow> unit io" where
  "expire e key secs =
     external e (Expire key secs) RedisError
       (\<lambda>w. ((), case sessions w key of None \<Rightarrow> w
                  | Some h \<Rightarrow> w\<lparr>deadline := (deadline w)(key \<mapsto> clock w + secs)\<rparr>))"

definition del :: "env \<Rightarrow> string \<Rightarrow> unit io" where
  "del e key =
     external e (Del key) RedisError
       (\<lambda>w. ((), w\<lparr>sessions := (sessions w)(key := None),
                    deadline := (deadline w)(key := None)\<rparr>))"

text \<open>
  Time passes between requests only. When it does, the store drops every key whose
  deadline has been reached.
\<close>

definition expired :: "world \<Rightarrow> nat \<Rightarrow> string \<Rightarrow> bool" where
  "expired w t key = (case deadline w key of None \<Rightarrow> False | Some d \<Rightarrow> d \<le> t)"

definition elapse :: "nat \<Rightarrow> world \<Rightarrow> world" where
  "elapse secs w =
     w\<lparr>clock := clock w + secs,
       sessions := (\<lambda>k. if expired w (clock w + secs) k then None else sessions w k),
       deadline := (\<lambda>k. if expired w (clock w + secs) k then None else deadline w k)\<rparr>"

subsection \<open>The code ledger (PostgreSQL)\<close>

text \<open>\<^verbatim>\<open>SELECT * FROM codes WHERE email = $1\<close>\<close>

definition select_by_email :: "env \<Rightarrow> string \<Rightarrow> code_row list io" where
  "select_by_email e v =
     external e (SelectByEmail v) DbError
       (\<lambda>w. (filter (\<lambda>r. email r = Some v) (codes w), w))"

text \<open>\<^verbatim>\<open>SELECT * FROM codes WHERE status = 'active' AND code = $1\<close>\<close>

definition select_active_code :: "env \<Rightarrow> string \<Rightarrow> code_row list io" where
  "select_active_code e v =
     external e (SelectActiveCode v) DbError
       (\<lambda>w. (filter (\<lambda>r. status r = ''active'' \<and> code r = v) (codes w), w))"

text \<open>
  \<^verbatim>\<open>UPDATE codes SET phone_number = $1, "name" = $2, email = $3, city = $4,
  status = 'inactive', created_at = NOW() WHERE code = $5 AND status = 'active'
  RETURNING *\<close>: one statement, which rewrites every row that matches and returns the
  rewritten rows. An \<^verbatim>\<open>undefined\<close> parameter is sent as \<^verbatim>\<open>NULL\<close>.
\<close>

definition claimable :: "string \<Rightarrow> code_row \<Rightarrow> bool" where
  "claimable c r = (code r = c \<and> status r = ''active'')"

definition claim_row ::
  "string \<Rightarrow> string option \<Rightarrow> string option \<Rightarrow> string option \<Rightarrow> nat \<Rightarrow> code_row \<Rightarrow> code_row" where
  "claim_row phone nm em ci t r =
     r\<lparr>phone_number := Some phone, name := nm, email := em, city := ci,
       status := ''inactive'', created_at := Some t\<rparr>"

definition update_codes ::
  "env \<Rightarrow> string \<Rightarrow> string option \<Rightarrow> string option \<Rightarrow> string option \<Rightarrow> string \<Rightarrow> code_row list io" where
  "update_codes e phone nm em ci c =
     external e (UpdateCode phone nm em ci c) DbError
       (\<lambda>w. (map (claim_row phone nm em ci (clock w)) (filter (claimable c) (codes w)),
             w\<lparr>codes := map (\<lambda>r. if claimable c r then claim_row phone nm em ci (clock w) r else r)
                            (codes w)\<rparr>))"

text \<open>
  \<^verbatim>\<open>updateCodeInDatabase\<close>: true when the statement returned a row, false when it
  returned none; an exception of the query is logged and thrown again.
\<close>

definition updateCodeInDatabase ::
  "env \<Rightarrow> string \<Rightarrow> string option \<Rightarrow> string option \<Rightarrow> string option \<Rightarrow> string \<Rightarrow> bool io" where
  "updateCodeInDatabase e phone nm em ci c =
     try_catch
       (io_bind (update_codes e phone nm em ci c)
          (\<lambda>rows. if length rows > 0 then ret True else ret False))
       (\<lambda>err. raise err)"

text \<open>
  Other requests run while this one awaits. Between the lookup of a code and its claim
  they may have committed changes to the ledger.
\<close>

definition interleave :: "env \<Rightarrow> unit io" where
  "interleave e w = (Inr (), w\<lparr>codes := race e (codes w)\<rparr>)"

subsection \<open>The notifier and the field extractor\<close>

definition sendText :: "env \<Rightarrow> string \<Rightarrow> string \<Rightarrow> unit io" where
  "sendText e to body =
     external e (SendText to body) HttpError
       (\<lambda>w. ((), w\<lparr>outbox := outbox w @ [(to, body)]\<rparr>))"

definition chat_completions_create :: "env \<Rightarrow> string \<Rightarrow> string \<Rightarrow> session \<Rightarrow> string list io" where
  "chat_completions_create e userInput currentStep sessionData =
     external e (ChatCompletion currentStep userInput) OpenAIError
       (\<lambda>w. (completion e userInput currentStep sessionData, w))"

definition retry_text :: string where
  "retry_text = ''Sorry, I'm having trouble processing your input. Please try again.''"

text \<open>
  The body of the \<^verbatim>\<open>try\<close> block of \<^verbatim>\<open>validateWithOpenAI\<close>: the request, the read of
  \<^verbatim>\<open>completion.choices[0].message.content\<close> (a \<^verbatim>\<open>TypeError\<close> when there is no choice)
  and \<^verbatim>\<open>JSON.parse\<close>.
\<close>

definition openai_request :: "env \<Rightarrow> string \<Rightarrow> string \<Rightarrow> session \<Rightarrow> validation io" where
  "openai_request e userInput currentStep sessionData =
     io_bind (chat_completions_create e userInput currentStep sessionData)
       (\<lambda>choices. case choices of
            [] \<Rightarrow> raise TypeError
          | content # _ \<Rightarrow>
              (case json_parse e content of
                 None \<Rightarrow> raise SyntaxError
               | Some result \<Rightarrow> ret result))"

definition validateWithOpenAI :: "env \<Rightarrow> string \<Rightarrow> string \<Rightarrow> session \<Rightarrow> validation io" where
  "validateWithOpenAI e userInput currentStep sessionData =
     try_catch (openai_request e userInput currentStep sessionData)
       (\<lambda>error. ret \<lparr>message = retry_text, is_valid = False, value' = ''''\<rparr>)"

subsection \<open>The handler of POST /webhook\<close>

text \<open>
  The replies the handler writes itself. The emoji that open most of them and the layout
  of the welcome text are left out: a \<open>string\<close> is a list of bytes.
\<close>

definition welcome_text :: string where
  "welcome_text = ''Welcome to Maidan 72! Your chance to win ICC Women's World Cup tickets & unlock once-in-a-lifetime experiences starts now! Rules & Terms: * Each entry must be from a valid Rexona purchase. * One entry per unique secret code. * Winners will be selected at random for match tickets, special access, and more. * Only users from India are eligible. * For full details, please see our [official T&Cs here](https://www.unilevernotices.com/privacy-notices/india-english.html). Your privacy matters! We keep your information secure and use it only for contest participation and updates. Read more at the link above. If you agree to the terms and conditions, please enter your full name.''"

definition email_registered_text :: string where
  "email_registered_text = ''This email is already registered with us. Please provide a different email address:''"

definition email_error_text :: string where
  "email_error_text = ''Something went wrong while checking your email. Please try again later.''"

definition registration_complete_text :: string where
  "registration_complete_text = ''Congratulations! Your registration is complete. Your details have been saved and the scratch code has been marked as used.''"

definition registration_failed_text :: string where
  "registration_failed_text = ''Registration failed. Please try again or contact support.''"

definition invalid_code_text :: string where
  "invalid_code_text = ''Invalid scratch code. This code is not found in our system or has already been used. Please provide a valid scratch code:''"

definition code_error_text :: string where
  "code_error_text = ''Something went wrong while checking your scratch code. Please try again later.''"

text \<open>\<^verbatim>\<open>body.entry?.[0]?.changes?.[0]?.value?.messages?.[0]\<close>\<close>

definition first_message :: "wa_body \<Rightarrow> wa_message option" where
  "first_message body =
     (case entry body of
        [] \<Rightarrow> None
      | e # _ \<Rightarrow>
          (case changes e of
             [] \<Rightarrow> None
           | c # _ \<Rightarrow>
               (case change_value c of
                  None \<Rightarrow> None
                | Some v \<Rightarrow> (case messages v of [] \<Rightarrow> None | m # _ \<Rightarrow> Some m))))"

text \<open>\<^verbatim>\<open>String.prototype.trim\<close> on the white space that fits a byte.\<close>

definition is_space :: "char \<Rightarrow> bool" where
  "is_space ch = (ch \<in> set [CHR 0x09, CHR 0x0A, CHR 0x0B, CHR 0x0C, CHR 0x0D, CHR 0x20])"

definition trim :: "string \<Rightarrow> string" where
  "trim s = rev (dropWhile is_space (rev (dropWhile is_space s)))"

text \<open>\<^verbatim>\<open>(msg.text?.body || "").trim()\<close>\<close>

definition message_text :: "wa_message \<Rightarrow> string" where
  "message_text msg = trim (case msg_text_body msg of None \<Rightarrow> [] | Some b \<Rightarrow> b)"

text \<open>\<^verbatim>\<open>!session.step\<close>: the field is missing or the empty string.\<close>

definition no_step :: "session \<Rightarrow> bool" where
  "no_step s = (case s ''step'' of None \<Rightarrow> True | Some v \<Rightarrow> v = [])"

text \<open>\<^verbatim>\<open>session.phone || from\<close>\<close>

definition phone_or :: "session \<Rightarrow> string \<Rightarrow> string" where
  "phone_or s sender = (case s ''phone'' of None \<Rightarrow> sender | Some p \<Rightarrow> if p = [] then sender else p)"

definition sessionKey :: "string \<Rightarrow> string" where
  "sessionKey sender = ''session:'' @ sender"

definition ask_name :: "env \<Rightarrow> string \<Rightarrow> string \<Rightarrow> session \<Rightarrow> nat io" where
  "ask_name e sender text s =
     io_bind (validateWithOpenAI e text ''ASK_NAME'' s) (\<lambda>v.
     io_bind (sendText e sender (message v)) (\<lambda>_.
     io_bind (if is_valid v
              then hSet e (sessionKey sender) [(''step'', ''ASK_EMAIL''), (''name'', value' v)]
              else ret ()) (\<lambda>_.
     ret 200)))"

definition ask_email :: "env \<Rightarrow> string \<Rightarrow> string \<Rightarrow> session \<Rightarrow> nat io" where
  "ask_email e sender text s =
     io_bind (validateWithOpenAI e text ''ASK_EMAIL'' s) (\<lambda>v.
     if \<not> is_valid v then io_bind (sendText e sender (message v)) (\<lambda>_. ret 200)
     else
       io_bind
         (try_catch
            (io_bind (select_by_email e (value' v)) (\<lambda>emailCheck.
               if length emailCheck > 0 then sendText e sender email_registered_text
               else
                 io_bind (sendText e sender (message v)) (\<lambda>_.
                 hSet e (sessionKey sender) [(''step'', ''ASK_CITY''), (''email'', value' v)])))
            (\<lambda>err. sendText e sender email_error_text))
         (\<lambda>_. ret 200))"

definition ask_city :: "env \<Rightarrow> string \<Rightarrow> string \<Rightarrow> session \<Rightarrow> nat io" where
  "ask_city e sender text s =
     io_bind (validateWithOpenAI e text ''ASK_CITY'' s) (\<lambda>v.
     io_bind (sendText e sender (message v)) (\<lambda>_.
     io_bind (if is_valid v
              then hSet e (sessionKey sender) [(''step'', ''ASK_CODE''), (''city'', value' v)]
              else ret ()) (\<lambda>_.
     ret 200)))"

definition ask_code :: "env \<Rightarrow> string \<Rightarrow> string \<Rightarrow> session \<Rightarrow> nat io" where
  "ask_code e sender text s =
     io_bind (validateWithOpenAI e text ''ASK_CODE'' s) (\<lambda>v.
     if \<not> is_valid v then io_bind (sendText e sender (message v)) (\<lambda>_. ret 200)
     else
       io_bind
         (try_catch
            (io_bind (select_active_code e (value' v)) (\<lambda>result.
               if length result > 0 then
                 io_bind (hSet e (sessionKey sender) [(''code'', value' v)]) (\<lambda>_.
                 io_bind (interleave e) (\<lambda>_.
                 io_bind (updateCodeInDatabase e (phone_or s sender) (s ''name'') (s ''email'')
                            (s ''city'') (value' v)) (\<lambda>updateSuccess.
                 if updateSuccess then
                   io_bind (del e (sessionKey sender)) (\<lambda>_.
                   sendText e sender registration_complete_text)
                 else sendText e sender registration_failed_text)))
               else sendText e sender invalid_code_text))
            (\<lambda>err. sendText e sender code_error_text))
         (\<lambda>_. ret 200))"

text \<open>
  The handler. Its result is the status it responds with, or the exception that leaves it
  when a call outside every \<^verbatim>\<open>try\<close> block is rejected.
\<close>

definition webhook_post :: "env \<Rightarrow> wa_body \<Rightarrow> nat io" where
  "webhook_post e body =
     (case first_message body of
        None \<Rightarrow> ret 200
      | Some msg \<Rightarrow>
          (let sender = msg_from msg;
               text = message_text msg
           in io_bind (hGetAll e (sessionKey sender)) (\<lambda>s.
                if no_step s then
                  io_bind (sendText e sender welcome_text) (\<lambda>_.
                  io_bind (hSet e (sessionKey sender) [(''step'', ''ASK_NAME''), (''phone'', sender)]) (\<lambda>_.
                  io_bind (expire e (sessionKey sender) (30 * 60)) (\<lambda>_.
                  ret 200)))
                else if s ''step'' = Some ''ASK_NAME'' then ask_name e sender text s
                else if s ''step'' = Some ''ASK_EMAIL'' then ask_email e sender text s
                else if s ''step'' = Some ''ASK_CITY'' then ask_city e sender text s
                else if s ''step'' = Some ''ASK_CODE'' then ask_code e sender text s
                else ret 200)))"

subsection \<open>Observations and concrete inputs\<close>


text \<open>
  A list of claims of one code, each with its own registrant, run one after the other. The
  store runs concurrent statements in some order, so this is also how it serves requests
  that claim at the same time.
\<close>

fun claim_all ::
  "env \<Rightarrow> (string \<times> string option \<times> string option \<times> string option) list \<Rightarrow> string \<Rightarrow> world
     \<Rightarrow> (exn + bool) list \<times> world" where
  "claim_all e [] c w = ([], w)"
| "claim_all e ((phone, nm, em, ci) # reqs) c w =
     (case updateCodeInDatabase e phone nm em ci c w of
        (r, w') \<Rightarrow> (case claim_all e reqs c w' of (rs, w'') \<Rightarrow> (r # rs, w'')))"

text \<open>An environment is reliable when it rejects no call.\<close>

definition reliable :: "env \<Rightarrow> bool" where
  "reliable e = (\<forall>k. \<not> fails e k)"

text \<open>
  The verdict of the extractor: what \<^verbatim>\<open>validateWithOpenAI\<close> returns when the request to the
  language model is not rejected (\<open>validateWithOpenAI_eq\<close> below).
\<close>

definition retry_verdict :: validation where
  "retry_verdict = \<lparr>message = retry_text, is_valid = False, value' = []\<rparr>"

definition verdict :: "env \<Rightarrow> string \<Rightarrow> string \<Rightarrow> session \<Rightarrow> validation" where
  "verdict e userInput currentStep sessionData =
     (case completion e userInput currentStep sessionData of
        [] \<Rightarrow> retry_verdict
      | content # _ \<Rightarrow>
          (case json_parse e content of None \<Rightarrow> retry_verdict | Some result \<Rightarrow> result))"

fun is_expire :: "effect \<Rightarrow> bool" where
  "is_expire (Expire key secs) = True"
| "is_expire _ = False"

text \<open>
  An environment in which no call is rejected and the language model returns no choice, and
  an empty world.
\<close>

definition env0 :: env where
  "env0 = \<lparr>fails = (\<lambda>k. False), completion = (\<lambda>t st s. []), json_parse = (\<lambda>c. None),
            race = (\<lambda>l. l)\<rparr>"

definition world0 :: world where
  "world0 = \<lparr>sessions = Map.empty, deadline = Map.empty, codes = [], outbox = [], trace = [],
              clock = 0\<rparr>"

text \<open>A row as the import script leaves it, and a world that holds a given ledger.\<close>

definition row :: "string \<Rightarrow> string \<Rightarrow> string \<Rightarrow> code_row" where
  "row i c st = \<lparr>code_id = i, code = c, status = st, phone_number = None, name = None,
     email = None, city = None, created_at = None, is_winner = False\<rparr>"

definition ledger_world :: "code_row list \<Rightarrow> world" where
  "ledger_world rs = world0\<lparr>codes := rs\<rparr>"

text \<open>
  An environment whose extractor answers every input with the same reply and the same
  verdict, and extracts the input as it is.
\<close>

definition echo_env :: "bool \<Rightarrow> string \<Rightarrow> env" where
  "echo_env ok reply =
     \<lparr>fails = (\<lambda>k. False), completion = (\<lambda>t st s. [t]),
      json_parse = (\<lambda>c. Some \<lparr>message = reply, is_valid = ok, value' = c\<rparr>), race = (\<lambda>l. l)\<rparr>"

text \<open>An event with one text message, and a world with one session and a ledger.\<close>

definition text_event :: "string \<Rightarrow> string \<Rightarrow> wa_body" where
  "text_event sender text =
     \<lparr>entry = [\<lparr>changes = [\<lparr>change_value =
        Some \<lparr>messages = [\<lparr>msg_from = sender, msg_text_body = Some text\<rparr>]\<rparr>\<rparr>]\<rparr>]\<rparr>"

definition session_world :: "string \<Rightarrow> (string \<times> string) list \<Rightarrow> code_row list \<Rightarrow> world" where
  "session_world sender fvs rs =
     world0\<lparr>sessions := [sessionKey sender \<mapsto> map_of fvs],
            deadline := [sessionKey sender \<mapsto> 1800], codes := rs\<rparr>"

text \<open>A row claimed by another registrant.\<close>

definition jane_row :: code_row where
  "jane_row = claim_row ''+919999999'' (Some ''Jane Roe'') (Some ''jane@example.com'') (Some ''Pune'') 0
     (row ''2'' ''XYZ789'' ''active'')"

text \<open>
  The session of a registrant who has reached the last step, and an environment in which
  another request claims the code \<open>ABC123\<close> between this request's lookup and its claim.
\<close>

definition john_session :: "(string \<times> string) list" where
  "john_session = [(''step'', ''ASK_CODE''), (''phone'', ''+911234567''), (''name'', ''John Doe''),
     (''email'', ''john@example.com''), (''city'', ''Mumbai'')]"

definition rival_env :: env where
  "rival_env = (echo_env True ''Checking your code'')
     \<lparr>race := map (\<lambda>r. if claimable ''ABC123'' r
                        then claim_row ''+919999999'' (Some ''Jane Roe'') (Some ''jane@example.com'')
                               (Some ''Pune'') 0 r
                        else r)\<rparr>"

text \<open>
  What a computation may do to the session timers. The events it has added to the trace
  are \<open>new_events\<close>. It \<open>extends\<close> the world when it leaves the clock alone and adds no
  call of \<open>expire\<close>. It is \<open>silent\<close> when, besides, it leaves every session and every
  deadline as it was; \<open>quiet\<close> for a key when it leaves every deadline and every other
  session as it was and does not remove the step of the session of the key; \<open>settled\<close>
  for a key when it leaves the other keys alone and either keeps the deadline of the key and
  the step of its session, or has deleted the session together with its deadline by a call
  of \<open>del\<close>; \<open>apart\<close> from a key when it leaves the clock and all other keys alone.
\<close>

definition new_events :: "world \<Rightarrow> world \<Rightarrow> effect list" where
  "new_events w w' = drop (length (trace w)) (trace w')"

definition traced :: "world \<Rightarrow> world \<Rightarrow> bool" where
  "traced w w' = (trace w' = trace w @ new_events w w')"

definition extends :: "world \<Rightarrow> world \<Rightarrow> bool" where
  "extends w w' = (clock w' = clock w \<and> traced w w' \<and>
     (\<forall>ev \<in> set (new_events w w'). \<not> is_expire ev))"

definition silent :: "world \<Rightarrow> world \<Rightarrow> bool" where
  "silent w w' = (extends w w' \<and> deadline w' = deadline w \<and> sessions w' = sessions w)"

definition quiet :: "string \<Rightarrow> world \<Rightarrow> world \<Rightarrow> bool" where
  "quiet key w w' =
     (extends w w' \<and> deadline w' = deadline w \<and>
      (\<forall>k. k \<noteq> key \<longrightarrow> sessions w' k = sessions w k) \<and>
      (\<not> no_step (session_of w key) \<longrightarrow> \<not> no_step (session_of w' key)))"

definition settled :: "string \<Rightarrow> world \<Rightarrow> world \<Rightarrow> bool" where
  "settled key w w' =
     (extends w w' \<and>
      (\<forall>k. k \<noteq> key \<longrightarrow> sessions w' k = sessions w k \<and> deadline w' k = deadline w k) \<and>
      (deadline w' key = deadline w key \<and>
         (\<not> no_step (session_of w key) \<longrightarrow> \<not> no_step (session_of w' key)) \<or>
       sessions w' key = None \<and> deadline w' key = None \<and> Del key \<in> set (new_events w w')))"

definition apart :: "string \<Rightarrow> world \<Rightarrow> world \<Rightarrow> bool" where
  "apart key w w' =
     (clock w' = clock w \<and> traced w w' \<and>
      (\<forall>k. k \<noteq> key \<longrightarrow> sessions w' k = sessions w k \<and> deadline w' k = deadline w k))"

definition keeps :: "(world \<Rightarrow> world \<Rightarrow> bool) \<Rightarrow> 'a io \<Rightarrow> bool" where
  "keeps R m = (\<forall>w r w'. m w = (r, w') \<longrightarrow> R w w')"

text \<open>
  A conversation: a list of later requests, each after some seconds have passed, from any
  sender and in any environment.
\<close>

fun conversation :: "(nat \<times> env \<times> wa_body) list \<Rightarrow> world \<Rightarrow> world" where
  "conversation [] w = w"
| "conversation ((gap, e, body) # rest) w =
     conversation rest (snd (webhook_post e body (elapse gap w)))"

section \<open>Properties\<close>

subsection \<open>The claim operation\<close>



lemma updateCodeInDatabase_eq:
  "updateCodeInDatabase e phone nm em ci c w =
     (if fails e (length (trace w))
      then (Inl DbError, w\<lparr>trace := trace w @ [UpdateCode phone nm em ci c]\<rparr>)
      else (Inr (filter (claimable c) (codes w) \<noteq> []),
            w\<lparr>trace := trace w @ [UpdateCode phone nm em ci c],
              codes := map (\<lambda>r. if claimable c r then claim_row phone nm em ci (clock w) r else r)
                         (codes w)\<rparr>))"
  by (simp add: updateCodeInDatabase_def update_codes_def external_def try_catch_def io_bind_def
      ret_def raise_def Let_def)



lemma claimed_not_claimable:
  "filter (claimable c) (map (\<lambda>r. if claimable c r then claim_row phone nm em ci t r else r) rs) = []"
  by (induction rs) (auto simp: claimable_def claim_row_def)

lemma nothing_to_claim:
  "filter (claimable c) rs = [] \<Longrightarrow>
   map (\<lambda>r. if claimable c r then claim_row phone nm em ci t r else r) rs = rs"
  by (induction rs) (auto split: if_splits)

lemma claim_all_step:
  "updateCodeInDatabase e phone nm em ci c w = (r, w') \<Longrightarrow>
   fst (claim_all e ((phone, nm, em, ci) # reqs) c w) = r # fst (claim_all e reqs c w')"
  by (simp split: prod.splits)

lemma claim_all_none:
  "filter (claimable c) (codes w) = [] \<Longrightarrow> Inr True \<notin> set (fst (claim_all e reqs c w))"
proof (induction reqs arbitrary: w)
  case Nil
  then show ?case by simp
next
  case (Cons a reqs)
  obtain phone nm em ci where a: "a = (phone, nm, em, ci)" by (cases a) auto
  obtain r w' where u: "updateCodeInDatabase e phone nm em ci c w = (r, w')" by fastforce
  from u Cons.prems have "r \<noteq> Inr True" and "codes w' = codes w"
    by (auto simp: updateCodeInDatabase_eq nothing_to_claim split: if_splits)
  with Cons.IH [of w'] Cons.prems show ?case
    by (simp add: a claim_all_step [OF u] del: claim_all.simps)
qed

lemma claim_all_at_most_one:
  "length (filter (\<lambda>r. r = Inr True) (fst (claim_all e reqs c w))) \<le> 1"
proof (induction reqs arbitrary: w)
  case Nil
  then show ?case by simp
next
  case (Cons a reqs)
  obtain phone nm em ci where a: "a = (phone, nm, em, ci)" by (cases a) auto
  obtain r w' where u: "updateCodeInDatabase e phone nm em ci c w = (r, w')" by fastforce
  show ?case
  proof (cases "r = Inr True")
    case True
    with u have "filter (claimable c) (codes w') = []"
      by (auto simp: updateCodeInDatabase_eq claimed_not_claimable split: if_splits)
    then have "Inr True \<notin> set (fst (claim_all e reqs c w'))"
      by (rule claim_all_none)
    then have "filter (\<lambda>r. r = Inr True) (fst (claim_all e reqs c w')) = []"
      by (auto simp: filter_empty_conv)
    with True show ?thesis by (simp add: a claim_all_step [OF u] del: claim_all.simps)
  next
    case False
    with Cons.IH [of w'] show ?thesis by (simp add: a claim_all_step [OF u] del: claim_all.simps)
  qed
qed

text \<open>
  C2. However many claims of one code are run, whatever their registrants and whichever of
  them the store rejects, at most one returns true. When the code is active at the start
  and the store rejects neither statement, of two claims the first to reach the store
  returns true and the other false; the registrants are arbitrary, so this covers both
  orders in which the store may run two concurrent claims.
\<close>

theorem at_most_one_successful_claim:
  "length (filter (\<lambda>r. r = Inr True) (fst (claim_all e reqs c w))) \<le> 1 \<and>
   (filter (claimable c) (codes w) \<noteq> [] \<and> \<not> fails e (length (trace w)) \<and>
    \<not> fails e (Suc (length (trace w)))
      \<longrightarrow> fst (claim_all e [a, b] c w) = [Inr True, Inr False])"
proof -
  obtain p1 n1 e1 c1 where a: "a = (p1, n1, e1, c1)" by (cases a) auto
  obtain p2 n2 e2 c2 where b: "b = (p2, n2, e2, c2)" by (cases b) auto
  show ?thesis
    using claim_all_at_most_one [of e reqs c w]
    by (simp add: a b updateCodeInDatabase_eq claimed_not_claimable)
qed

theorem at_most_one_successful_claim_witness:
  "filter (claimable ''ABC123'') (codes (ledger_world [row ''1'' ''ABC123'' ''active''])) \<noteq> [] \<and>
   \<not> fails env0 0 \<and> \<not> fails env0 (Suc 0) \<and>
   fst (claim_all env0 [(''+911234567'', Some ''John Doe'', Some ''john@example.com'', Some ''Mumbai''),
                        (''+919999999'', Some ''Jane Roe'', Some ''jane@example.com'', Some ''Pune'')]
          ''ABC123'' (ledger_world [row ''1'' ''ABC123'' ''active''])) = [Inr True, Inr False]"
  using at_most_one_successful_claim [of env0 "[]" "''ABC123''" "ledger_world [row ''1'' ''ABC123'' ''active'']"
      "(''+911234567'', Some ''John Doe'', Some ''john@example.com'', Some ''Mumbai'')"
      "(''+919999999'', Some ''Jane Roe'', Some ''jane@example.com'', Some ''Pune'')"]
  by (simp add: env0_def ledger_world_def world0_def row_def claimable_def)

subsection \<open>Events without a message\<close>

text \<open>
  C7. An event that carries no message is answered with status 200 and the world is left
  as it was: the trace is the same, so no call reached the session store, the ledger, the
  extractor or the notifier.
\<close>

theorem no_message_is_ignored:
  "first_message body = None \<Longrightarrow> webhook_post e body w = (Inr 200, w)"
  by (simp add: webhook_post_def ret_def)

theorem no_message_is_ignored_witness:
  "first_message \<lparr>entry = []\<rparr> = None \<and>
   webhook_post env0 \<lparr>entry = []\<rparr> world0 = (Inr 200, world0)"
  using no_message_is_ignored [of "\<lparr>entry = []\<rparr>" env0 world0]
  by (simp add: first_message_def)

subsection \<open>Calls in a reliable environment\<close>

lemma external_ok:
  "reliable e \<Longrightarrow>
   external e ev x act w = (case act (w\<lparr>trace := trace w @ [ev]\<rparr>) of (r, w2) \<Rightarrow> (Inr r, w2))"
  by (simp add: external_def reliable_def)

lemma validateWithOpenAI_eq:
  "validateWithOpenAI e t st s w =
     (Inr (if fails e (length (trace w)) then retry_verdict else verdict e t st s),
      w\<lparr>trace := trace w @ [ChatCompletion st t]\<rparr>)"
  by (simp add: validateWithOpenAI_def openai_request_def chat_completions_create_def external_def
      try_catch_def io_bind_def ret_def raise_def verdict_def retry_verdict_def Let_def
      split: list.splits option.splits)

lemma validateWithOpenAI_ok:
  "reliable e \<Longrightarrow>
   validateWithOpenAI e t st s w = (Inr (verdict e t st s), w\<lparr>trace := trace w @ [ChatCompletion st t]\<rparr>)"
  by (simp add: validateWithOpenAI_eq reliable_def)

lemmas store_defs = hGetAll_def hSet_def expire_def del_def sendText_def select_by_email_def
  select_active_code_def session_of_def

subsection \<open>The welcome transition\<close>

lemma welcome_reliable:
  assumes "first_message body = Some msg"
      and "no_step (session_of w (sessionKey (msg_from msg)))"
      and "reliable e"
      and "webhook_post e body w = (res, w')"
  shows "res = Inr 200 \<and>
     outbox w' = outbox w @ [(msg_from msg, welcome_text)] \<and>
     sessions w' = (sessions w)(sessionKey (msg_from msg) \<mapsto>
        session_of w (sessionKey (msg_from msg)) ++
          map_of [(''step'', ''ASK_NAME''), (''phone'', msg_from msg)]) \<and>
     session_of w' (sessionKey (msg_from msg)) ''step'' = Some ''ASK_NAME'' \<and>
     session_of w' (sessionKey (msg_from msg)) ''phone'' = Some (msg_from msg) \<and>
     deadline w' = (deadline w)(sessionKey (msg_from msg) \<mapsto> clock w + 30 * 60) \<and>
     trace w' = trace w @
       [HGetAll (sessionKey (msg_from msg)),
        SendText (msg_from msg) welcome_text,
        HSet (sessionKey (msg_from msg)) [(''step'', ''ASK_NAME''), (''phone'', msg_from msg)],
        Expire (sessionKey (msg_from msg)) (30 * 60)] \<and>
     codes w' = codes w \<and> clock w' = clock w"
  using assms
  by (auto simp: webhook_post_def io_bind_def ret_def external_ok store_defs Let_def)

text \<open>
  C6. When the session of the sender has no step (it is absent, or it has expired and the
  store has dropped it), a reliable environment sends the welcome text, writes
  \<open>step = ASK_NAME\<close> and \<open>phone = sender\<close> into the session and answers 200. The trace
  holds no call to the extractor, and nothing in the result depends on the text of the
  message: it is discarded.
\<close>

theorem welcome_on_first_message:
  assumes "first_message body = Some msg"
      and "no_step (session_of w (sessionKey (msg_from msg)))"
      and "reliable e"
      and "webhook_post e body w = (res, w')"
  shows "res = Inr 200 \<and>
     outbox w' = outbox w @ [(msg_from msg, welcome_text)] \<and>
     sessions w' = (sessions w)(sessionKey (msg_from msg) \<mapsto>
        session_of w (sessionKey (msg_from msg)) ++
          map_of [(''step'', ''ASK_NAME''), (''phone'', msg_from msg)]) \<and>
     session_of w' (sessionKey (msg_from msg)) ''step'' = Some ''ASK_NAME'' \<and>
     session_of w' (sessionKey (msg_from msg)) ''phone'' = Some (msg_from msg) \<and>
     deadline w' = (deadline w)(sessionKey (msg_from msg) \<mapsto> clock w + 30 * 60) \<and>
     trace w' = trace w @
       [HGetAll (sessionKey (msg_from msg)),
        SendText (msg_from msg) welcome_text,
        HSet (sessionKey (msg_from msg)) [(''step'', ''ASK_NAME''), (''phone'', msg_from msg)],
        Expire (sessionKey (msg_from msg)) (30 * 60)] \<and>
     codes w' = codes w \<and> clock w' = clock w"
  by (rule welcome_reliable [OF assms])

theorem welcome_on_first_message_witness:
  "first_message (text_event ''+911234567'' ''hello'') =
     Some \<lparr>msg_from = ''+911234567'', msg_text_body = Some ''hello''\<rparr> \<and>
   no_step (session_of (elapse 1800 (session_world ''+911234567'' [(''step'', ''ASK_EMAIL'')] []))
     (sessionKey ''+911234567'')) \<and>
   reliable env0 \<and>
   fst (webhook_post env0 (text_event ''+911234567'' ''hello'')
         (elapse 1800 (session_world ''+911234567'' [(''step'', ''ASK_EMAIL'')] []))) = Inr 200 \<and>
   outbox (snd (webhook_post env0 (text_event ''+911234567'' ''hello'')
         (elapse 1800 (session_world ''+911234567'' [(''step'', ''ASK_EMAIL'')] [])))) =
     [(''+911234567'', welcome_text)] \<and>
   session_of (snd (webhook_post env0 (text_event ''+911234567'' ''hello'')
         (elapse 1800 (session_world ''+911234567'' [(''step'', ''ASK_EMAIL'')] []))))
     (sessionKey ''+911234567'') ''step'' = Some ''ASK_NAME''"
proof -
  let ?w = "elapse 1800 (session_world ''+911234567'' [(''step'', ''ASK_EMAIL'')] [])"
  let ?b = "text_event ''+911234567'' ''hello''"
  have m: "first_message ?b = Some \<lparr>msg_from = ''+911234567'', msg_text_body = Some ''hello''\<rparr>"
    by (simp add: first_message_def text_event_def)
  have n: "no_step (session_of ?w (sessionKey (msg_from \<lparr>msg_from = ''+911234567'', msg_text_body = Some ''hello''\<rparr>)))"
    by (simp add: no_step_def session_of_def elapse_def expired_def session_world_def world0_def)
  have r: "reliable env0"
    by (simp add: reliable_def env0_def)
  have o: "outbox ?w = []"
    by (simp add: elapse_def session_world_def world0_def)
  from welcome_on_first_message [OF m n r surjective_pairing] m n r o show ?thesis
    by simp
qed


subsection \<open>The extractor adapter\<close>

text \<open>
  C8. \<^verbatim>\<open>validateWithOpenAI\<close> returns a value on every input and never raises. Whenever
  the body of its \<^verbatim>\<open>try\<close> block raises (the request is rejected, the completion has no
  choice, or the content does not parse), it returns \<open>is_valid = False\<close>, the empty value
  and the retry text.
\<close>

theorem validateWithOpenAI_catches:
  "(\<exists>v w'. validateWithOpenAI e t st s w = (Inr v, w')) \<and>
   (\<forall>err w'. openai_request e t st s w = (Inl err, w') \<longrightarrow>
      validateWithOpenAI e t st s w =
        (Inr \<lparr>message = retry_text, is_valid = False, value' = []\<rparr>, w'))"
proof -
  have "\<exists>v w'. validateWithOpenAI e t st s w = (Inr v, w')"
    by (simp add: validateWithOpenAI_eq)
  moreover have "\<forall>err w'. openai_request e t st s w = (Inl err, w') \<longrightarrow>
      validateWithOpenAI e t st s w =
        (Inr \<lparr>message = retry_text, is_valid = False, value' = []\<rparr>, w')"
    by (simp add: validateWithOpenAI_def try_catch_def ret_def)
  ultimately show ?thesis by blast
qed

theorem validateWithOpenAI_catches_witness:
  "openai_request env0 ''John Doe'' ''ASK_NAME'' Map.empty world0 =
     (Inl TypeError, world0\<lparr>trace := [ChatCompletion ''ASK_NAME'' ''John Doe'']\<rparr>) \<and>
   validateWithOpenAI env0 ''John Doe'' ''ASK_NAME'' Map.empty world0 =
     (Inr \<lparr>message = retry_text, is_valid = False, value' = []\<rparr>,
      world0\<lparr>trace := [ChatCompletion ''ASK_NAME'' ''John Doe'']\<rparr>)"
proof -
  have r: "openai_request env0 ''John Doe'' ''ASK_NAME'' Map.empty world0 =
     (Inl TypeError, world0\<lparr>trace := [ChatCompletion ''ASK_NAME'' ''John Doe'']\<rparr>)"
    by (simp add: openai_request_def chat_completions_create_def external_def io_bind_def
        raise_def env0_def world0_def)
  from validateWithOpenAI_catches [of env0 "''John Doe''" "''ASK_NAME''" Map.empty world0] r
  show ?thesis by blast
qed

subsection \<open>The step ASK_EMAIL\<close>

lemmas run_defs = webhook_post_def ask_name_def ask_email_def ask_city_def ask_code_def io_bind_def
  try_catch_def ret_def raise_def Let_def no_step_def interleave_def

lemma ask_email_reliable:
  assumes "first_message body = Some msg"
      and "session_of w (sessionKey (msg_from msg)) = s"
      and "s ''step'' = Some ''ASK_EMAIL''"
      and "verdict e (message_text msg) ''ASK_EMAIL'' s = v"
      and "is_valid v"
      and "reliable e"
      and "webhook_post e body w = (res, w')"
  shows "res = Inr 200 \<and>
     (if filter (\<lambda>r. email r = Some (value' v)) (codes w) \<noteq> []
      then sessions w' = sessions w \<and>
           outbox w' = outbox w @ [(msg_from msg, email_registered_text)]
      else sessions w' = (sessions w)(sessionKey (msg_from msg) \<mapsto>
             s ++ map_of [(''step'', ''ASK_CITY''), (''email'', value' v)]) \<and>
           outbox w' = outbox w @ [(msg_from msg, message v)])"
  using assms
  by (auto simp: run_defs external_ok validateWithOpenAI_ok store_defs)


lemma ask_email_stores_only_unclaimed:
  assumes "first_message body = Some msg"
      and "session_of w (sessionKey (msg_from msg)) = s"
      and "s ''step'' = Some ''ASK_EMAIL''"
      and "verdict e (message_text msg) ''ASK_EMAIL'' s = v"
      and "webhook_post e body w = (res, w')"
      and "sessions w' \<noteq> sessions w"
  shows "is_valid v \<and> filter (\<lambda>r. email r = Some (value' v)) (codes w) = []"
  using assms
  by (auto simp: run_defs external_def validateWithOpenAI_eq store_defs retry_verdict_def
      split: if_splits)


text \<open>
  C4. In step \<open>ASK_EMAIL\<close> with a valid verdict and a reliable environment: when a row
  of the ledger carries the extracted email, the session store is left as it was (the step
  stays \<open>ASK_EMAIL\<close>, the email is not stored) and the only reply is the handler's own
  text that the email is already registered; otherwise the email is stored, the step
  becomes \<open>ASK_CITY\<close> and the reply is the extractor's message. In every environment,
  the session store changes only when the verdict is valid and no row carries the email.
\<close>

theorem ask_email_checks_ledger:
  assumes "first_message body = Some msg"
      and "session_of w (sessionKey (msg_from msg)) = s"
      and "s ''step'' = Some ''ASK_EMAIL''"
      and "verdict e (message_text msg) ''ASK_EMAIL'' s = v"
      and "webhook_post e body w = (res, w')"
  shows "(reliable e \<and> is_valid v \<longrightarrow>
            res = Inr 200 \<and>
            (if filter (\<lambda>r. email r = Some (value' v)) (codes w) \<noteq> []
             then sessions w' = sessions w \<and>
                  outbox w' = outbox w @ [(msg_from msg, email_registered_text)]
             else sessions w' = (sessions w)(sessionKey (msg_from msg) \<mapsto>
                    s ++ map_of [(''step'', ''ASK_CITY''), (''email'', value' v)]) \<and>
                  outbox w' = outbox w @ [(msg_from msg, message v)])) \<and>
         (sessions w' \<noteq> sessions w \<longrightarrow>
            is_valid v \<and> filter (\<lambda>r. email r = Some (value' v)) (codes w) = [])"
  using ask_email_reliable [OF assms(1-4) _ _ assms(5)]
    ask_email_stores_only_unclaimed [OF assms]
  by blast

theorem ask_email_checks_ledger_witness:
  "first_message (text_event ''+911234567'' ''jane@example.com'') =
     Some \<lparr>msg_from = ''+911234567'', msg_text_body = Some ''jane@example.com''\<rparr> \<and>
   session_of (session_world ''+911234567'' [(''step'', ''ASK_EMAIL''), (''name'', ''John Doe'')] [jane_row])
     (sessionKey ''+911234567'') ''step'' = Some ''ASK_EMAIL'' \<and>
   reliable (echo_env True ''Thanks! Which city are you in?'') \<and>
   is_valid (verdict (echo_env True ''Thanks! Which city are you in?'') ''jane@example.com'' ''ASK_EMAIL''
     (map_of [(''step'', ''ASK_EMAIL''), (''name'', ''John Doe'')])) \<and>
   sessions (snd (webhook_post (echo_env True ''Thanks! Which city are you in?'')
      (text_event ''+911234567'' ''jane@example.com'')
      (session_world ''+911234567'' [(''step'', ''ASK_EMAIL''), (''name'', ''John Doe'')] [jane_row]))) =
     sessions (session_world ''+911234567'' [(''step'', ''ASK_EMAIL''), (''name'', ''John Doe'')] [jane_row]) \<and>
   outbox (snd (webhook_post (echo_env True ''Thanks! Which city are you in?'')
      (text_event ''+911234567'' ''jane@example.com'')
      (session_world ''+911234567'' [(''step'', ''ASK_EMAIL''), (''name'', ''John Doe'')] [jane_row]))) =
     [(''+911234567'', email_registered_text)]"
proof -
  let ?e = "echo_env True ''Thanks! Which city are you in?''"
  let ?b = "text_event ''+911234567'' ''jane@example.com''"
  let ?m = "\<lparr>msg_from = ''+911234567'', msg_text_body = Some ''jane@example.com''\<rparr>"
  let ?w = "session_world ''+911234567'' [(''step'', ''ASK_EMAIL''), (''name'', ''John Doe'')] [jane_row]"
  let ?s = "map_of [(''step'', ''ASK_EMAIL''), (''name'', ''John Doe'')] :: session"
  have m: "first_message ?b = Some ?m"
    by (simp add: first_message_def text_event_def)
  have s: "session_of ?w (sessionKey (msg_from ?m)) = ?s"
    by (simp add: session_of_def session_world_def world0_def)
  have st: "?s ''step'' = Some ''ASK_EMAIL''"
    by simp
  have t: "message_text ?m = ''jane@example.com''"
    by (simp add: message_text_def trim_def is_space_def)
  have v: "verdict ?e (message_text ?m) ''ASK_EMAIL'' ?s =
      \<lparr>message = ''Thanks! Which city are you in?'', is_valid = True, value' = ''jane@example.com''\<rparr>"
    by (simp add: t verdict_def echo_env_def)
  have r: "reliable ?e"
    by (simp add: reliable_def echo_env_def)
  have c: "codes ?w = [jane_row]" "outbox ?w = []"
    by (simp_all add: session_world_def world0_def)
  have j: "email jane_row = Some ''jane@example.com''"
    by (simp add: jane_row_def claim_row_def)
  from ask_email_checks_ledger [OF m s st v surjective_pairing] m s r v t c j show ?thesis
    by simp
qed

subsection \<open>The step ASK_CODE\<close>

lemma select_active_is_claimable:
  "filter (\<lambda>r. status r = ''active'' \<and> code r = c) rs = filter (claimable c) rs"
  by (rule filter_cong) (auto simp: claimable_def)

lemma ask_code_reliable:
  assumes "first_message body = Some msg"
      and "session_of w (sessionKey (msg_from msg)) = s"
      and "s ''step'' = Some ''ASK_CODE''"
      and "verdict e (message_text msg) ''ASK_CODE'' s = v"
      and "reliable e"
      and "webhook_post e body w = (res, w')"
  shows "res = Inr 200 \<and>
     (if \<not> is_valid v then
        trace w' = trace w @
          [HGetAll (sessionKey (msg_from msg)), ChatCompletion ''ASK_CODE'' (message_text msg),
           SendText (msg_from msg) (message v)] \<and>
        outbox w' = outbox w @ [(msg_from msg, message v)] \<and>
        sessions w' = sessions w \<and> deadline w' = deadline w \<and> codes w' = codes w
      else if filter (claimable (value' v)) (codes w) = [] then
        trace w' = trace w @
          [HGetAll (sessionKey (msg_from msg)), ChatCompletion ''ASK_CODE'' (message_text msg),
           SelectActiveCode (value' v), SendText (msg_from msg) invalid_code_text] \<and>
        outbox w' = outbox w @ [(msg_from msg, invalid_code_text)] \<and>
        sessions w' = sessions w \<and> deadline w' = deadline w \<and> codes w' = codes w
      else if filter (claimable (value' v)) (race e (codes w)) = [] then
        trace w' = trace w @
          [HGetAll (sessionKey (msg_from msg)), ChatCompletion ''ASK_CODE'' (message_text msg),
           SelectActiveCode (value' v), HSet (sessionKey (msg_from msg)) [(''code'', value' v)],
           UpdateCode (phone_or s (msg_from msg)) (s ''name'') (s ''email'') (s ''city'') (value' v),
           SendText (msg_from msg) registration_failed_text] \<and>
        outbox w' = outbox w @ [(msg_from msg, registration_failed_text)] \<and>
        sessions w' = (sessions w)(sessionKey (msg_from msg) \<mapsto> s ++ map_of [(''code'', value' v)]) \<and>
        deadline w' = deadline w \<and> codes w' = race e (codes w)
      else
        trace w' = trace w @
          [HGetAll (sessionKey (msg_from msg)), ChatCompletion ''ASK_CODE'' (message_text msg),
           SelectActiveCode (value' v), HSet (sessionKey (msg_from msg)) [(''code'', value' v)],
           UpdateCode (phone_or s (msg_from msg)) (s ''name'') (s ''email'') (s ''city'') (value' v),
           Del (sessionKey (msg_from msg)),
           SendText (msg_from msg) registration_complete_text] \<and>
        outbox w' = outbox w @ [(msg_from msg, registration_complete_text)] \<and>
        sessions w' = (sessions w)(sessionKey (msg_from msg) := None) \<and>
        deadline w' = (deadline w)(sessionKey (msg_from msg) := None) \<and>
        codes w' = map (\<lambda>r. if claimable (value' v) r
                             then claim_row (phone_or s (msg_from msg)) (s ''name'') (s ''email'')
                                    (s ''city'') (clock w) r
                             else r) (race e (codes w)))"
  using assms
  by (auto simp: run_defs external_ok validateWithOpenAI_ok store_defs updateCodeInDatabase_eq
      select_active_is_claimable nothing_to_claim reliable_def)

lemma ask_code_deletes_only_after_claim:
  assumes "first_message body = Some msg"
      and "session_of w (sessionKey (msg_from msg)) = s"
      and "s ''step'' = Some ''ASK_CODE''"
      and "verdict e (message_text msg) ''ASK_CODE'' s = v"
      and "webhook_post e body w = (res, w')"
      and "sessions w' (sessionKey (msg_from msg)) = None"
  shows "is_valid v \<and> filter (claimable (value' v)) (codes w) \<noteq> [] \<and>
         filter (claimable (value' v)) (race e (codes w)) \<noteq> []"
proof -
  from assms(2,3) have "sessions w (sessionKey (msg_from msg)) \<noteq> None"
    by (auto simp: session_of_def split: option.splits)
  with assms show ?thesis
    by (auto simp: run_defs external_def validateWithOpenAI_eq store_defs updateCodeInDatabase_eq
        select_active_is_claimable retry_verdict_def split: if_splits)
qed

text \<open>
  C3. In step \<open>ASK_CODE\<close> with a valid verdict and a reliable environment. The lookup
  reads the ledger \<open>codes w\<close>; the claim runs on \<open>race e (codes w)\<close> and returns true
  exactly when that ledger holds an active row with the code (\<open>updateCodeInDatabase_eq\<close>).
  When the lookup finds the code and the claim returns true, the session is deleted and the
  reply is the text of success; the next message from the same address, whatever it says,
  is answered with the welcome text and opens a session at \<open>ASK_NAME\<close>. When the lookup
  finds no active row, the session store is as before and the reply is the text for an
  invalid code. When the lookup finds the code and the claim returns false, the session is
  still there with step \<open>ASK_CODE\<close> and every field other than \<open>code\<close> as it was, and
  the reply is the text of failure.
\<close>

theorem ask_code_claim_outcomes:
  assumes "first_message body = Some msg"
      and "session_of w (sessionKey (msg_from msg)) = s"
      and "s ''step'' = Some ''ASK_CODE''"
      and "verdict e (message_text msg) ''ASK_CODE'' s = v"
      and "is_valid v"
      and "reliable e"
      and "webhook_post e body w = (res, w')"
  shows "res = Inr 200 \<and>
     (filter (claimable (value' v)) (codes w) \<noteq> [] \<and>
      filter (claimable (value' v)) (race e (codes w)) \<noteq> [] \<longrightarrow>
        sessions w' (sessionKey (msg_from msg)) = None \<and>
        outbox w' = outbox w @ [(msg_from msg, registration_complete_text)] \<and>
        (\<forall>e2 body2 msg2 res2 w2.
           reliable e2 \<and> first_message body2 = Some msg2 \<and> msg_from msg2 = msg_from msg \<and>
           webhook_post e2 body2 w' = (res2, w2) \<longrightarrow>
             outbox w2 = outbox w' @ [(msg_from msg, welcome_text)] \<and>
             session_of w2 (sessionKey (msg_from msg)) ''step'' = Some ''ASK_NAME'')) \<and>
     (filter (claimable (value' v)) (codes w) = [] \<longrightarrow>
        sessions w' = sessions w \<and>
        outbox w' = outbox w @ [(msg_from msg, invalid_code_text)]) \<and>
     (filter (claimable (value' v)) (codes w) \<noteq> [] \<and>
      filter (claimable (value' v)) (race e (codes w)) = [] \<longrightarrow>
        sessions w' (sessionKey (msg_from msg)) = Some (s ++ map_of [(''code'', value' v)]) \<and>
        session_of w' (sessionKey (msg_from msg)) ''step'' = Some ''ASK_CODE'' \<and>
        (\<forall>f. f \<noteq> ''code'' \<longrightarrow> session_of w' (sessionKey (msg_from msg)) f = s f) \<and>
        outbox w' = outbox w @ [(msg_from msg, registration_failed_text)])"
proof -
  note r = ask_code_reliable [OF assms(1-4,6,7)]
  have again: "sessions w' (sessionKey (msg_from msg)) = None \<Longrightarrow>
      reliable e2 \<Longrightarrow> first_message body2 = Some msg2 \<Longrightarrow> msg_from msg2 = msg_from msg \<Longrightarrow>
      webhook_post e2 body2 w' = (res2, w2) \<Longrightarrow>
      outbox w2 = outbox w' @ [(msg_from msg, welcome_text)] \<and>
      session_of w2 (sessionKey (msg_from msg)) ''step'' = Some ''ASK_NAME''"
    for e2 body2 msg2 res2 w2
  proof -
    assume d: "sessions w' (sessionKey (msg_from msg)) = None" and e2: "reliable e2"
      and b2: "first_message body2 = Some msg2" and m2: "msg_from msg2 = msg_from msg"
      and p2: "webhook_post e2 body2 w' = (res2, w2)"
    from d m2 have "no_step (session_of w' (sessionKey (msg_from msg2)))"
      by (simp add: session_of_def no_step_def)
    from welcome_reliable [OF b2 this e2 p2] m2 show ?thesis by simp
  qed
  have a: "res = Inr 200" using r by simp
  have b: "filter (claimable (value' v)) (codes w) \<noteq> [] \<and>
      filter (claimable (value' v)) (race e (codes w)) \<noteq> [] \<longrightarrow>
        sessions w' (sessionKey (msg_from msg)) = None \<and>
        outbox w' = outbox w @ [(msg_from msg, registration_complete_text)] \<and>
        (\<forall>e2 body2 msg2 res2 w2.
           reliable e2 \<and> first_message body2 = Some msg2 \<and> msg_from msg2 = msg_from msg \<and>
           webhook_post e2 body2 w' = (res2, w2) \<longrightarrow>
             outbox w2 = outbox w' @ [(msg_from msg, welcome_text)] \<and>
             session_of w2 (sessionKey (msg_from msg)) ''step'' = Some ''ASK_NAME'')"
  proof (intro impI)
    assume fc: "filter (claimable (value' v)) (codes w) \<noteq> [] \<and>
      filter (claimable (value' v)) (race e (codes w)) \<noteq> []"
    with r assms(5) have gone: "sessions w' (sessionKey (msg_from msg)) = None"
      and sent: "outbox w' = outbox w @ [(msg_from msg, registration_complete_text)]"
      by simp_all
    have "\<forall>e2 body2 msg2 res2 w2.
           reliable e2 \<and> first_message body2 = Some msg2 \<and> msg_from msg2 = msg_from msg \<and>
           webhook_post e2 body2 w' = (res2, w2) \<longrightarrow>
             outbox w2 = outbox w' @ [(msg_from msg, welcome_text)] \<and>
             session_of w2 (sessionKey (msg_from msg)) ''step'' = Some ''ASK_NAME''"
      by (intro allI impI, elim conjE, rule again [OF gone])
    with gone sent show "sessions w' (sessionKey (msg_from msg)) = None \<and>
        outbox w' = outbox w @ [(msg_from msg, registration_complete_text)] \<and>
        (\<forall>e2 body2 msg2 res2 w2.
           reliable e2 \<and> first_message body2 = Some msg2 \<and> msg_from msg2 = msg_from msg \<and>
           webhook_post e2 body2 w' = (res2, w2) \<longrightarrow>
             outbox w2 = outbox w' @ [(msg_from msg, welcome_text)] \<and>
             session_of w2 (sessionKey (msg_from msg)) ''step'' = Some ''ASK_NAME'')"
      by (intro conjI)
  qed
  have c: "filter (claimable (value' v)) (codes w) = [] \<longrightarrow>
        sessions w' = sessions w \<and>
        outbox w' = outbox w @ [(msg_from msg, invalid_code_text)]"
    using r assms(5) by simp
  have d: "filter (claimable (value' v)) (codes w) \<noteq> [] \<and>
      filter (claimable (value' v)) (race e (codes w)) = [] \<longrightarrow>
        sessions w' (sessionKey (msg_from msg)) = Some (s ++ map_of [(''code'', value' v)]) \<and>
        session_of w' (sessionKey (msg_from msg)) ''step'' = Some ''ASK_CODE'' \<and>
        (\<forall>f. f \<noteq> ''code'' \<longrightarrow> session_of w' (sessionKey (msg_from msg)) f = s f) \<and>
        outbox w' = outbox w @ [(msg_from msg, registration_failed_text)]"
    using r assms(3,5) by (simp add: session_of_def)
  show ?thesis
    by (rule conjI [OF a conjI [OF b conjI [OF c d]]])
qed

subsection \<open>Facts about the concrete inputs\<close>

lemma john_message:
  "first_message (text_event ''+911234567'' t) = Some \<lparr>msg_from = ''+911234567'', msg_text_body = Some t\<rparr>"
  by (simp add: first_message_def text_event_def)

lemma john_world:
  "session_of (session_world ''+911234567'' fvs rs) (sessionKey ''+911234567'') = map_of fvs"
  "codes (session_world ''+911234567'' fvs rs) = rs"
  "outbox (session_world ''+911234567'' fvs rs) = []"
  "trace (session_world ''+911234567'' fvs rs) = []"
  by (simp_all add: session_of_def session_world_def world0_def)

lemma code_text: "message_text \<lparr>msg_from = ''+911234567'', msg_text_body = Some ''ABC123''\<rparr> = ''ABC123''"
  by (simp add: message_text_def trim_def is_space_def)

lemma email_text:
  "message_text \<lparr>msg_from = ''+911234567'', msg_text_body = Some ''john@example.com''\<rparr> =
     ''john@example.com''"
  by (simp add: message_text_def trim_def is_space_def)

lemma name_text:
  "message_text \<lparr>msg_from = ''+911234567'', msg_text_body = Some ''12345''\<rparr> = ''12345''"
  by (simp add: message_text_def trim_def is_space_def)

lemma echo_reliable: "reliable (echo_env ok reply)"
  by (simp add: reliable_def echo_env_def)

lemma echo_verdict:
  "verdict (echo_env ok reply) t st s = \<lparr>message = reply, is_valid = ok, value' = t\<rparr>"
  by (simp add: verdict_def echo_env_def)

theorem ask_code_claim_outcomes_witness:
  "first_message (text_event ''+911234567'' ''ABC123'') =
     Some \<lparr>msg_from = ''+911234567'', msg_text_body = Some ''ABC123''\<rparr> \<and>
   map_of john_session ''step'' = Some ''ASK_CODE'' \<and>
   is_valid (verdict (echo_env True ''Checking your code'') ''ABC123'' ''ASK_CODE'' (map_of john_session)) \<and>
   reliable (echo_env True ''Checking your code'') \<and>
   filter (claimable ''ABC123'') [row ''1'' ''ABC123'' ''active''] \<noteq> [] \<and>
   sessions (snd (webhook_post (echo_env True ''Checking your code'') (text_event ''+911234567'' ''ABC123'')
       (session_world ''+911234567'' john_session [row ''1'' ''ABC123'' ''active''])))
     (sessionKey ''+911234567'') = None \<and>
   outbox (snd (webhook_post (echo_env True ''Checking your code'') (text_event ''+911234567'' ''ABC123'')
       (session_world ''+911234567'' john_session [row ''1'' ''ABC123'' ''active'']))) =
     [(''+911234567'', registration_complete_text)]"
proof -
  let ?e = "echo_env True ''Checking your code''"
  let ?m = "\<lparr>msg_from = ''+911234567'', msg_text_body = Some ''ABC123''\<rparr>"
  let ?w = "session_world ''+911234567'' john_session [row ''1'' ''ABC123'' ''active'']"
  let ?v = "\<lparr>message = ''Checking your code'', is_valid = True, value' = ''ABC123''\<rparr>"
  have s: "session_of ?w (sessionKey (msg_from ?m)) = map_of john_session"
    by (simp add: john_world)
  have st: "map_of john_session ''step'' = Some ''ASK_CODE''"
    by (simp add: john_session_def)
  have v: "verdict ?e (message_text ?m) ''ASK_CODE'' (map_of john_session) = ?v"
    by (simp add: code_text verdict_def echo_env_def)
  have ok: "is_valid ?v"
    by simp
  have r: "reliable ?e"
    by (simp add: reliable_def echo_env_def)
  have f: "filter (claimable ''ABC123'') [row ''1'' ''ABC123'' ''active''] \<noteq> []"
    by (simp add: claimable_def row_def)
  have g: "race ?e = (\<lambda>l. l)"
    by (simp add: echo_env_def)
  from ask_code_claim_outcomes [OF john_message s st v ok r surjective_pairing]
    john_message st v [unfolded code_text] r f g show ?thesis
    by (simp add: john_world)
qed

text \<open>
  C10. In step \<open>ASK_CODE\<close>, when the verdict is valid and the lookup finds an active row,
  a reliable environment sees the write of the code into the session (\<open>HSet\<close>) before
  the claim (\<open>UpdateCode\<close>). If the claim then returns false, because another request
  took the code in between, the session is still there: step \<open>ASK_CODE\<close>, the fields
  phone, name, email and city as they were, and the code in addition. In every
  environment, the session is gone after the request only if the verdict was valid, the
  lookup found the code and the claim returned true.
\<close>

theorem code_written_before_claim:
  assumes "first_message body = Some msg"
      and "session_of w (sessionKey (msg_from msg)) = s"
      and "s ''step'' = Some ''ASK_CODE''"
      and "verdict e (message_text msg) ''ASK_CODE'' s = v"
      and "webhook_post e body w = (res, w')"
  shows "(reliable e \<and> is_valid v \<and> filter (claimable (value' v)) (codes w) \<noteq> [] \<longrightarrow>
            (\<exists>evs. trace w' = trace w @
               [HGetAll (sessionKey (msg_from msg)),
                ChatCompletion ''ASK_CODE'' (message_text msg),
                SelectActiveCode (value' v),
                HSet (sessionKey (msg_from msg)) [(''code'', value' v)],
                UpdateCode (phone_or s (msg_from msg)) (s ''name'') (s ''email'') (s ''city'') (value' v)]
               @ evs) \<and>
            (filter (claimable (value' v)) (race e (codes w)) = [] \<longrightarrow>
               sessions w' (sessionKey (msg_from msg)) = Some (s(''code'' \<mapsto> value' v)) \<and>
               session_of w' (sessionKey (msg_from msg)) ''step'' = Some ''ASK_CODE'' \<and>
               session_of w' (sessionKey (msg_from msg)) ''phone'' = s ''phone'' \<and>
               session_of w' (sessionKey (msg_from msg)) ''name'' = s ''name'' \<and>
               session_of w' (sessionKey (msg_from msg)) ''email'' = s ''email'' \<and>
               session_of w' (sessionKey (msg_from msg)) ''city'' = s ''city'' \<and>
               session_of w' (sessionKey (msg_from msg)) ''code'' = Some (value' v))) \<and>
         (sessions w' (sessionKey (msg_from msg)) = None \<longrightarrow>
            is_valid v \<and> filter (claimable (value' v)) (codes w) \<noteq> [] \<and>
            filter (claimable (value' v)) (race e (codes w)) \<noteq> [])"
proof -
  have a: "reliable e \<and> is_valid v \<and> filter (claimable (value' v)) (codes w) \<noteq> [] \<longrightarrow>
            (\<exists>evs. trace w' = trace w @
               [HGetAll (sessionKey (msg_from msg)),
                ChatCompletion ''ASK_CODE'' (message_text msg),
                SelectActiveCode (value' v),
                HSet (sessionKey (msg_from msg)) [(''code'', value' v)],
                UpdateCode (phone_or s (msg_from msg)) (s ''name'') (s ''email'') (s ''city'') (value' v)]
               @ evs) \<and>
            (filter (claimable (value' v)) (race e (codes w)) = [] \<longrightarrow>
               sessions w' (sessionKey (msg_from msg)) = Some (s(''code'' \<mapsto> value' v)) \<and>
               session_of w' (sessionKey (msg_from msg)) ''step'' = Some ''ASK_CODE'' \<and>
               session_of w' (sessionKey (msg_from msg)) ''phone'' = s ''phone'' \<and>
               session_of w' (sessionKey (msg_from msg)) ''name'' = s ''name'' \<and>
               session_of w' (sessionKey (msg_from msg)) ''email'' = s ''email'' \<and>
               session_of w' (sessionKey (msg_from msg)) ''city'' = s ''city'' \<and>
               session_of w' (sessionKey (msg_from msg)) ''code'' = Some (value' v))"
  proof (intro impI)
    assume h: "reliable e \<and> is_valid v \<and> filter (claimable (value' v)) (codes w) \<noteq> []"
    then have rel: "reliable e" by simp
    note r = ask_code_reliable [OF assms(1-4) rel assms(5)]
    show "(\<exists>evs. trace w' = trace w @
               [HGetAll (sessionKey (msg_from msg)),
                ChatCompletion ''ASK_CODE'' (message_text msg),
                SelectActiveCode (value' v),
                HSet (sessionKey (msg_from msg)) [(''code'', value' v)],
                UpdateCode (phone_or s (msg_from msg)) (s ''name'') (s ''email'') (s ''city'') (value' v)]
               @ evs) \<and>
            (filter (claimable (value' v)) (race e (codes w)) = [] \<longrightarrow>
               sessions w' (sessionKey (msg_from msg)) = Some (s(''code'' \<mapsto> value' v)) \<and>
               session_of w' (sessionKey (msg_from msg)) ''step'' = Some ''ASK_CODE'' \<and>
               session_of w' (sessionKey (msg_from msg)) ''phone'' = s ''phone'' \<and>
               session_of w' (sessionKey (msg_from msg)) ''name'' = s ''name'' \<and>
               session_of w' (sessionKey (msg_from msg)) ''email'' = s ''email'' \<and>
               session_of w' (sessionKey (msg_from msg)) ''city'' = s ''city'' \<and>
               session_of w' (sessionKey (msg_from msg)) ''code'' = Some (value' v))"
      using r h assms(3)
      by (cases "filter (claimable (value' v)) (race e (codes w)) = []")
         (simp_all add: session_of_def)
  qed
  have b: "sessions w' (sessionKey (msg_from msg)) = None \<longrightarrow>
            is_valid v \<and> filter (claimable (value' v)) (codes w) \<noteq> [] \<and>
            filter (claimable (value' v)) (race e (codes w)) \<noteq> []"
    using ask_code_deletes_only_after_claim [OF assms] by blast
  show ?thesis
    by (rule conjI [OF a b])
qed

theorem code_written_before_claim_witness:
  "first_message (text_event ''+911234567'' ''ABC123'') =
     Some \<lparr>msg_from = ''+911234567'', msg_text_body = Some ''ABC123''\<rparr> \<and>
   map_of john_session ''step'' = Some ''ASK_CODE'' \<and>
   reliable rival_env \<and>
   is_valid (verdict rival_env ''ABC123'' ''ASK_CODE'' (map_of john_session)) \<and>
   filter (claimable ''ABC123'') [row ''1'' ''ABC123'' ''active''] \<noteq> [] \<and>
   filter (claimable ''ABC123'') (race rival_env [row ''1'' ''ABC123'' ''active'']) = [] \<and>
   sessions (snd (webhook_post rival_env (text_event ''+911234567'' ''ABC123'')
       (session_world ''+911234567'' john_session [row ''1'' ''ABC123'' ''active''])))
     (sessionKey ''+911234567'') = Some ((map_of john_session)(''code'' \<mapsto> ''ABC123'')) \<and>
   session_of (snd (webhook_post rival_env (text_event ''+911234567'' ''ABC123'')
       (session_world ''+911234567'' john_session [row ''1'' ''ABC123'' ''active''])))
     (sessionKey ''+911234567'') ''step'' = Some ''ASK_CODE''"
proof -
  let ?m = "\<lparr>msg_from = ''+911234567'', msg_text_body = Some ''ABC123''\<rparr>"
  let ?w = "session_world ''+911234567'' john_session [row ''1'' ''ABC123'' ''active'']"
  let ?v = "\<lparr>message = ''Checking your code'', is_valid = True, value' = ''ABC123''\<rparr>"
  have s: "session_of ?w (sessionKey (msg_from ?m)) = map_of john_session"
    by (simp add: john_world)
  have st: "map_of john_session ''step'' = Some ''ASK_CODE''"
    by (simp add: john_session_def)
  have v: "verdict rival_env (message_text ?m) ''ASK_CODE'' (map_of john_session) = ?v"
    by (simp add: code_text verdict_def rival_env_def echo_env_def)
  have r: "reliable rival_env"
    by (simp add: reliable_def rival_env_def echo_env_def)
  have f: "filter (claimable ''ABC123'') [row ''1'' ''ABC123'' ''active''] \<noteq> []"
    by (simp add: claimable_def row_def)
  have g: "filter (claimable ''ABC123'') (race rival_env [row ''1'' ''ABC123'' ''active'']) = []"
    by (simp add: rival_env_def echo_env_def claimable_def row_def claim_row_def)
  from code_written_before_claim [OF john_message s st v surjective_pairing]
    john_message st v [unfolded code_text] r f g show ?thesis
    by (simp add: john_world)
qed

subsection \<open>The replies\<close>

lemma ask_name_reliable:
  assumes "first_message body = Some msg"
      and "session_of w (sessionKey (msg_from msg)) = s"
      and "s ''step'' = Some ''ASK_NAME''"
      and "verdict e (message_text msg) ''ASK_NAME'' s = v"
      and "reliable e"
      and "webhook_post e body w = (res, w')"
  shows "res = Inr 200 \<and>
     outbox w' = outbox w @ [(msg_from msg, message v)] \<and>
     sessions w' = (if is_valid v
        then (sessions w)(sessionKey (msg_from msg) \<mapsto>
               s ++ map_of [(''step'', ''ASK_EMAIL''), (''name'', value' v)])
        else sessions w)"
  using assms
  by (auto simp: run_defs external_ok validateWithOpenAI_ok store_defs)

lemma ask_city_reliable:
  assumes "first_message body = Some msg"
      and "session_of w (sessionKey (msg_from msg)) = s"
      and "s ''step'' = Some ''ASK_CITY''"
      and "verdict e (message_text msg) ''ASK_CITY'' s = v"
      and "reliable e"
      and "webhook_post e body w = (res, w')"
  shows "res = Inr 200 \<and>
     outbox w' = outbox w @ [(msg_from msg, message v)] \<and>
     sessions w' = (if is_valid v
        then (sessions w)(sessionKey (msg_from msg) \<mapsto>
               s ++ map_of [(''step'', ''ASK_CODE''), (''city'', value' v)])
        else sessions w)"
  using assms
  by (auto simp: run_defs external_ok validateWithOpenAI_ok store_defs)

lemma ask_email_invalid:
  assumes "first_message body = Some msg"
      and "session_of w (sessionKey (msg_from msg)) = s"
      and "s ''step'' = Some ''ASK_EMAIL''"
      and "verdict e (message_text msg) ''ASK_EMAIL'' s = v"
      and "\<not> is_valid v"
      and "reliable e"
      and "webhook_post e body w = (res, w')"
  shows "res = Inr 200 \<and> outbox w' = outbox w @ [(msg_from msg, message v)] \<and>
     sessions w' = sessions w"
  using assms
  by (auto simp: run_defs external_ok validateWithOpenAI_ok store_defs)

text \<open>
  C5, as the code has it. In a reliable environment the handler sends exactly one reply.
  In steps \<open>ASK_NAME\<close> and \<open>ASK_CITY\<close> it is the extractor's message, whatever the
  verdict. In step \<open>ASK_CODE\<close> it is the extractor's message on the invalid branch only;
  on the valid branch it is one of the handler's own three texts. In step \<open>ASK_EMAIL\<close> it
  is the extractor's message on the invalid branch and also on the valid branch when no row
  of the ledger carries the email; only when a row carries it is the reply the handler's
  own text.
\<close>

theorem replies_by_step:
  assumes "first_message body = Some msg"
      and "session_of w (sessionKey (msg_from msg)) = s"
      and "reliable e"
      and "webhook_post e body w = (res, w')"
  shows "(s ''step'' = Some ''ASK_NAME'' \<longrightarrow>
            outbox w' = outbox w @
              [(msg_from msg, message (verdict e (message_text msg) ''ASK_NAME'' s))]) \<and>
         (s ''step'' = Some ''ASK_CITY'' \<longrightarrow>
            outbox w' = outbox w @
              [(msg_from msg, message (verdict e (message_text msg) ''ASK_CITY'' s))]) \<and>
         (s ''step'' = Some ''ASK_EMAIL'' \<longrightarrow>
            outbox w' = outbox w @
              [(msg_from msg,
                if is_valid (verdict e (message_text msg) ''ASK_EMAIL'' s) \<and>
                   filter (\<lambda>r. email r = Some (value' (verdict e (message_text msg) ''ASK_EMAIL'' s)))
                     (codes w) \<noteq> []
                then email_registered_text
                else message (verdict e (message_text msg) ''ASK_EMAIL'' s))]) \<and>
         (s ''step'' = Some ''ASK_CODE'' \<longrightarrow>
            outbox w' = outbox w @
              [(msg_from msg,
                if \<not> is_valid (verdict e (message_text msg) ''ASK_CODE'' s)
                then message (verdict e (message_text msg) ''ASK_CODE'' s)
                else if filter (claimable (value' (verdict e (message_text msg) ''ASK_CODE'' s)))
                          (codes w) = []
                then invalid_code_text
                else if filter (claimable (value' (verdict e (message_text msg) ''ASK_CODE'' s)))
                          (race e (codes w)) = []
                then registration_failed_text
                else registration_complete_text)])"
proof (intro conjI impI)
  assume "s ''step'' = Some ''ASK_NAME''"
  from ask_name_reliable [OF assms(1,2) this refl assms(3,4)]
  show "outbox w' = outbox w @ [(msg_from msg, message (verdict e (message_text msg) ''ASK_NAME'' s))]"
    by simp
next
  assume "s ''step'' = Some ''ASK_CITY''"
  from ask_city_reliable [OF assms(1,2) this refl assms(3,4)]
  show "outbox w' = outbox w @ [(msg_from msg, message (verdict e (message_text msg) ''ASK_CITY'' s))]"
    by simp
next
  let ?v = "verdict e (message_text msg) ''ASK_EMAIL'' s"
  assume st: "s ''step'' = Some ''ASK_EMAIL''"
  show "outbox w' = outbox w @
      [(msg_from msg,
        if is_valid ?v \<and> filter (\<lambda>r. email r = Some (value' ?v)) (codes w) \<noteq> []
        then email_registered_text else message ?v)]"
  proof (cases "is_valid ?v")
    case True
    from ask_email_reliable [OF assms(1,2) st refl True assms(3,4)] True show ?thesis
      by (simp split: if_splits)
  next
    case False
    from ask_email_invalid [OF assms(1,2) st refl False assms(3,4)] False show ?thesis
      by simp
  qed
next
  let ?v = "verdict e (message_text msg) ''ASK_CODE'' s"
  assume st: "s ''step'' = Some ''ASK_CODE''"
  from ask_code_reliable [OF assms(1,2) st refl assms(3,4)]
  show "outbox w' = outbox w @
      [(msg_from msg,
        if \<not> is_valid ?v then message ?v
        else if filter (claimable (value' ?v)) (codes w) = [] then invalid_code_text
        else if filter (claimable (value' ?v)) (race e (codes w)) = [] then registration_failed_text
        else registration_complete_text)]"
    by (simp split: if_splits)
qed

theorem replies_by_step_witness:
  "first_message (text_event ''+911234567'' ''12345'') =
     Some \<lparr>msg_from = ''+911234567'', msg_text_body = Some ''12345''\<rparr> \<and>
   reliable (echo_env False ''Please enter your full name.'') \<and>
   map_of [(''step'', ''ASK_NAME''), (''phone'', ''+911234567'')] ''step'' = Some ''ASK_NAME'' \<and>
   \<not> is_valid (verdict (echo_env False ''Please enter your full name.'') ''12345'' ''ASK_NAME''
      (map_of [(''step'', ''ASK_NAME''), (''phone'', ''+911234567'')])) \<and>
   outbox (snd (webhook_post (echo_env False ''Please enter your full name.'')
       (text_event ''+911234567'' ''12345'')
       (session_world ''+911234567'' [(''step'', ''ASK_NAME''), (''phone'', ''+911234567'')] []))) =
     [(''+911234567'', ''Please enter your full name.'')] \<and>
   reliable (echo_env True ''Checking your code'') \<and>
   map_of john_session ''step'' = Some ''ASK_CODE'' \<and>
   is_valid (verdict (echo_env True ''Checking your code'') ''ABC123'' ''ASK_CODE'' (map_of john_session)) \<and>
   outbox (snd (webhook_post (echo_env True ''Checking your code'') (text_event ''+911234567'' ''ABC123'')
       (session_world ''+911234567'' john_session [row ''1'' ''ABC123'' ''active'']))) =
     [(''+911234567'', registration_complete_text)]"
proof -
  let ?fs = "[(''step'', ''ASK_NAME''), (''phone'', ''+911234567'')]"
  have s1: "session_of (session_world ''+911234567'' ?fs [])
      (sessionKey (msg_from \<lparr>msg_from = ''+911234567'', msg_text_body = Some ''12345''\<rparr>)) = map_of ?fs"
    by (simp add: john_world)
  have s2: "session_of (session_world ''+911234567'' john_session [row ''1'' ''ABC123'' ''active''])
      (sessionKey (msg_from \<lparr>msg_from = ''+911234567'', msg_text_body = Some ''ABC123''\<rparr>)) =
      map_of john_session"
    by (simp add: john_world)
  have st: "map_of john_session ''step'' = Some ''ASK_CODE''"
    by (simp add: john_session_def)
  have f: "filter (claimable ''ABC123'') [row ''1'' ''ABC123'' ''active''] \<noteq> []"
    by (simp add: claimable_def row_def)
  have g: "race (echo_env True ''Checking your code'') = (\<lambda>l. l)"
    by (simp add: echo_env_def)
  from replies_by_step [OF john_message s1 echo_reliable surjective_pairing]
  have a: "outbox (snd (webhook_post (echo_env False ''Please enter your full name.'')
       (text_event ''+911234567'' ''12345'') (session_world ''+911234567'' ?fs []))) =
     [(''+911234567'', ''Please enter your full name.'')]"
    by (simp add: john_world name_text echo_verdict)
  from replies_by_step [OF john_message s2 echo_reliable surjective_pairing] st f g
  have b: "outbox (snd (webhook_post (echo_env True ''Checking your code'')
       (text_event ''+911234567'' ''ABC123'')
       (session_world ''+911234567'' john_session [row ''1'' ''ABC123'' ''active'']))) =
     [(''+911234567'', registration_complete_text)]"
    by (simp add: john_world code_text echo_verdict)
  from a b st show ?thesis
    by (simp add: john_message echo_reliable echo_verdict)
qed

text \<open>
  C5 as it is written fails in step \<open>ASK_EMAIL\<close>: with a valid verdict and an email that
  no row of the ledger carries, the reply is the extractor's message
  (\<^verbatim>\<open>await sendText(from, validation.message)\<close> after the lookup).
\<close>

theorem valid_email_gets_extractor_message:
  "session_of (session_world ''+911234567'' [(''step'', ''ASK_EMAIL''), (''name'', ''John Doe'')] [jane_row])
     (sessionKey ''+911234567'') ''step'' = Some ''ASK_EMAIL'' \<and>
   verdict (echo_env True ''Thanks! Which city are you in?'') ''john@example.com'' ''ASK_EMAIL''
     (map_of [(''step'', ''ASK_EMAIL''), (''name'', ''John Doe'')]) =
     \<lparr>message = ''Thanks! Which city are you in?'', is_valid = True, value' = ''john@example.com''\<rparr> \<and>
   outbox (snd (webhook_post (echo_env True ''Thanks! Which city are you in?'')
      (text_event ''+911234567'' ''john@example.com'')
      (session_world ''+911234567'' [(''step'', ''ASK_EMAIL''), (''name'', ''John Doe'')] [jane_row]))) =
     [(''+911234567'', ''Thanks! Which city are you in?'')]"
proof -
  let ?e = "echo_env True ''Thanks! Which city are you in?''"
  let ?fs = "[(''step'', ''ASK_EMAIL''), (''name'', ''John Doe'')]"
  have s: "session_of (session_world ''+911234567'' ?fs [jane_row])
      (sessionKey (msg_from \<lparr>msg_from = ''+911234567'', msg_text_body = Some ''john@example.com''\<rparr>)) =
      map_of ?fs"
    by (simp add: john_world)
  have j: "email jane_row = Some ''jane@example.com''"
    by (simp add: jane_row_def claim_row_def)
  from ask_email_reliable [OF john_message s _ refl _ echo_reliable surjective_pairing] j
  show ?thesis
    by (simp add: john_world email_text echo_verdict)
qed

subsection \<open>The session timer\<close>

lemma new_events_eq: "trace w' = trace w @ evs \<Longrightarrow> new_events w w' = evs"
  by (simp add: new_events_def)

lemma traced_refl: "traced w w"
  by (simp add: traced_def new_events_def)

lemma traced_trans:
  assumes "traced a b" and "traced b c"
  shows "traced a c" and "new_events a c = new_events a b @ new_events b c"
proof -
  from assms have t: "trace c = trace a @ (new_events a b @ new_events b c)"
    by (simp add: traced_def)
  then show n: "new_events a c = new_events a b @ new_events b c"
    by (rule new_events_eq)
  from t show "traced a c"
    unfolding traced_def n .
qed

lemma extends_refl: "extends w w"
  by (simp add: extends_def traced_refl) (simp add: new_events_def)

lemma extends_trans:
  assumes "extends a b" and "extends b c"
  shows "extends a c" and "new_events a c = new_events a b @ new_events b c"
proof -
  from assms have t: "traced a b" "traced b c"
    by (simp_all add: extends_def)
  note x = traced_trans [OF t]
  from x show "new_events a c = new_events a b @ new_events b c" by simp
  from assms x show "extends a c"
    by (auto simp: extends_def)
qed

lemma silent_refl: "silent w w"
  by (simp add: silent_def extends_refl)

lemma silent_trans: "silent a b \<Longrightarrow> silent b c \<Longrightarrow> silent a c"
  by (auto simp: silent_def intro: extends_trans(1))

lemma silent_quiet: "silent w w' \<Longrightarrow> quiet key w w'"
  by (simp add: silent_def quiet_def session_of_def)

lemma quiet_settled: "quiet key w w' \<Longrightarrow> settled key w w'"
  by (simp add: quiet_def settled_def)

lemma settled_apart: "settled key w w' \<Longrightarrow> apart key w w'"
  by (simp add: settled_def apart_def extends_def)

lemma quiet_trans: "quiet key a b \<Longrightarrow> quiet key b c \<Longrightarrow> quiet key a c"
  by (auto simp: quiet_def intro: extends_trans(1))

lemma apart_refl: "apart key w w"
  by (simp add: apart_def traced_refl)

lemma apart_trans: "apart key a b \<Longrightarrow> apart key b c \<Longrightarrow> apart key a c"
  by (auto simp: apart_def intro: traced_trans(1))

lemma quiet_then_settled:
  assumes "quiet key a b" and "settled key b c"
  shows "settled key a c"
proof -
  from assms have e: "extends a b" "extends b c"
    by (simp_all add: quiet_def settled_def)
  note x = extends_trans [OF e]
  from assms x show ?thesis
    by (auto simp: quiet_def settled_def)
qed

lemma settled_then_silent:
  assumes "settled key a b" and "silent b c"
  shows "settled key a c"
proof -
  from assms have e: "extends a b" "extends b c"
    by (simp_all add: silent_def settled_def)
  note x = extends_trans [OF e]
  from assms(2) have s: "session_of c key = session_of b key"
    by (simp add: silent_def session_of_def)
  from assms x s show ?thesis
    by (auto simp: silent_def settled_def)
qed

lemma keeps_ret: "keeps silent (ret x)"
  by (simp add: keeps_def ret_def silent_refl)

lemma keeps_raise: "keeps silent (raise x)"
  by (simp add: keeps_def raise_def silent_refl)

lemma keeps_bind:
  assumes "keeps R1 m" and "\<And>x. keeps R2 (f x)"
      and "\<And>a b c. R1 a b \<Longrightarrow> R2 b c \<Longrightarrow> R3 a c"
      and "\<And>a b. R1 a b \<Longrightarrow> R3 a b"
  shows "keeps R3 (io_bind m f)"
  unfolding keeps_def
proof (intro allI impI)
  fix w r w'
  assume run: "io_bind m f w = (r, w')"
  obtain r1 w1 where m: "m w = (r1, w1)" by fastforce
  with assms(1) have k1: "R1 w w1" by (simp add: keeps_def)
  show "R3 w w'"
  proof (cases r1)
    case (Inl x)
    with run m have "w' = w1" by (simp add: io_bind_def)
    with k1 assms(4) show ?thesis by simp
  next
    case (Inr y)
    with run m have "f y w1 = (r, w')" by (simp add: io_bind_def)
    with assms(2) have "R2 w1 w'" by (simp add: keeps_def)
    with k1 show ?thesis by (rule assms(3))
  qed
qed

lemma keeps_try:
  assumes "keeps R1 m" and "\<And>x. keeps R2 (h x)"
      and "\<And>a b c. R1 a b \<Longrightarrow> R2 b c \<Longrightarrow> R3 a c"
      and "\<And>a b. R1 a b \<Longrightarrow> R3 a b"
  shows "keeps R3 (try_catch m h)"
  unfolding keeps_def
proof (intro allI impI)
  fix w r w'
  assume run: "try_catch m h w = (r, w')"
  obtain r1 w1 where m: "m w = (r1, w1)" by fastforce
  with assms(1) have k1: "R1 w w1" by (simp add: keeps_def)
  show "R3 w w'"
  proof (cases r1)
    case (Inl x)
    with run m have "h x w1 = (r, w')" by (simp add: try_catch_def)
    with assms(2) have "R2 w1 w'" by (simp add: keeps_def)
    with k1 show ?thesis by (rule assms(3))
  next
    case (Inr y)
    with run m have "w' = w1" by (simp add: try_catch_def)
    with k1 assms(4) show ?thesis by simp
  qed
qed

lemma silent_bind:
  "keeps silent m \<Longrightarrow> (\<And>x. keeps silent (f x)) \<Longrightarrow> keeps silent (io_bind m f)"
  by (rule keeps_bind [where ?R1.0 = silent and ?R2.0 = silent]) (auto intro: silent_trans)

lemma silent_try:
  "keeps silent m \<Longrightarrow> (\<And>x. keeps silent (h x)) \<Longrightarrow> keeps silent (try_catch m h)"
  by (rule keeps_try [where ?R1.0 = silent and ?R2.0 = silent]) (auto intro: silent_trans)

lemma quiet_bind:
  "keeps (quiet key) m \<Longrightarrow> (\<And>x. keeps (quiet key) (f x)) \<Longrightarrow> keeps (quiet key) (io_bind m f)"
  by (rule keeps_bind [where ?R1.0 = "quiet key" and ?R2.0 = "quiet key"]) (auto intro: quiet_trans)

lemma quiet_try:
  "keeps (quiet key) m \<Longrightarrow> (\<And>x. keeps (quiet key) (h x)) \<Longrightarrow> keeps (quiet key) (try_catch m h)"
  by (rule keeps_try [where ?R1.0 = "quiet key" and ?R2.0 = "quiet key"]) (auto intro: quiet_trans)

lemma settle_bind:
  "keeps (quiet key) m \<Longrightarrow> (\<And>x. keeps (settled key) (f x)) \<Longrightarrow> keeps (settled key) (io_bind m f)"
  by (rule keeps_bind [where ?R1.0 = "quiet key" and ?R2.0 = "settled key"])
     (auto intro: quiet_then_settled quiet_settled)

lemma settled_bind_silent:
  "keeps (settled key) m \<Longrightarrow> (\<And>x. keeps silent (f x)) \<Longrightarrow> keeps (settled key) (io_bind m f)"
  by (rule keeps_bind [where ?R1.0 = "settled key" and ?R2.0 = silent])
     (auto intro: settled_then_silent)

lemma settled_try_silent:
  "keeps (settled key) m \<Longrightarrow> (\<And>x. keeps silent (h x)) \<Longrightarrow> keeps (settled key) (try_catch m h)"
  by (rule keeps_try [where ?R1.0 = "settled key" and ?R2.0 = silent])
     (auto intro: settled_then_silent)

lemma apart_bind:
  "keeps (apart key) m \<Longrightarrow> (\<And>x. keeps (apart key) (f x)) \<Longrightarrow> keeps (apart key) (io_bind m f)"
  by (rule keeps_bind [where ?R1.0 = "apart key" and ?R2.0 = "apart key"]) (auto intro: apart_trans)

lemma keeps_external:
  assumes "\<And>w. R w (w\<lparr>trace := trace w @ [ev]\<rparr>)"
      and "\<And>w. R w (snd (act (w\<lparr>trace := trace w @ [ev]\<rparr>)))"
  shows "keeps R (external e ev x act)"
  unfolding keeps_def
proof (intro allI impI)
  fix w r w'
  assume run: "external e ev x act w = (r, w')"
  show "R w w'"
  proof (cases "fails e (length (trace w))")
    case True
    with run have "w' = w\<lparr>trace := trace w @ [ev]\<rparr>" by (simp add: external_def)
    with assms(1) show ?thesis by simp
  next
    case False
    with run have "w' = snd (act (w\<lparr>trace := trace w @ [ev]\<rparr>))"
      by (auto simp: external_def split: prod.splits)
    with assms(2) show ?thesis by simp
  qed
qed

lemmas rel_defs = silent_def quiet_def settled_def apart_def extends_def traced_def new_events_def
  session_of_def

lemma keeps_silent:
  "keeps silent (hGetAll e key)"
  "keeps silent (sendText e to body)"
  "keeps silent (select_by_email e v)"
  "keeps silent (select_active_code e v)"
  "keeps silent (update_codes e phone nm em ci c)"
  "keeps silent (chat_completions_create e t st s)"
  unfolding hGetAll_def sendText_def select_by_email_def select_active_code_def
    update_codes_def chat_completions_create_def
  by (rule keeps_external; simp add: rel_defs)+

lemma keeps_interleave: "keeps silent (interleave e)"
  by (simp add: keeps_def interleave_def rel_defs)

lemma keeps_validate: "keeps silent (validateWithOpenAI e t st s)"
  unfolding validateWithOpenAI_def openai_request_def
  by (intro silent_try silent_bind keeps_silent keeps_ret)
     (simp add: keeps_raise keeps_ret split: list.splits option.splits)

lemma keeps_update: "keeps silent (updateCodeInDatabase e phone nm em ci c)"
  unfolding updateCodeInDatabase_def
  by (intro silent_try silent_bind keeps_silent keeps_raise) (simp add: keeps_ret)

lemma keeps_hSet:
  assumes "map_of fvs ''step'' \<noteq> Some []"
  shows "keeps (quiet key) (hSet e key fvs)"
  unfolding hSet_def
proof (rule keeps_external)
  show "quiet key w (w\<lparr>trace := trace w @ [HSet key fvs]\<rparr>)" for w
    by (simp add: rel_defs)
  show "quiet key w (snd ((), (w\<lparr>trace := trace w @ [HSet key fvs]\<rparr>)
      \<lparr>sessions := (sessions (w\<lparr>trace := trace w @ [HSet key fvs]\<rparr>))
         (key \<mapsto> session_of (w\<lparr>trace := trace w @ [HSet key fvs]\<rparr>) key ++ map_of fvs)\<rparr>))" for w
    using assms
    by (auto simp: rel_defs no_step_def map_add_def split: option.splits)
qed

lemma keeps_del: "keeps (settled key) (del e key)"
  unfolding del_def
  by (rule keeps_external; simp add: rel_defs)

lemma silent_keeps_quiet: "keeps silent m \<Longrightarrow> keeps (quiet key) m"
  by (auto simp: keeps_def intro: silent_quiet)

lemma quiet_keeps_settled: "keeps (quiet key) m \<Longrightarrow> keeps (settled key) m"
  by (auto simp: keeps_def intro: quiet_settled)

lemma keeps_quiet:
  "keeps (quiet key) (ret x)"
  "keeps (quiet key) (sendText e to body)"
  "keeps (quiet key) (select_by_email e v)"
  "keeps (quiet key) (select_active_code e v)"
  "keeps (quiet key) (interleave e)"
  "keeps (quiet key) (validateWithOpenAI e t st s)"
  "keeps (quiet key) (updateCodeInDatabase e phone nm em ci c)"
  by (rule silent_keeps_quiet,
      rule keeps_ret keeps_silent keeps_interleave keeps_validate keeps_update)+

lemma keeps_if: "keeps R a \<Longrightarrow> keeps R b \<Longrightarrow> keeps R (if c then a else b)"
  by simp

lemma keeps_ask_name: "keeps (quiet (sessionKey sender)) (ask_name e sender text s)"
  unfolding ask_name_def
  by (intro quiet_bind keeps_if keeps_quiet keeps_hSet) simp

lemma keeps_ask_city: "keeps (quiet (sessionKey sender)) (ask_city e sender text s)"
  unfolding ask_city_def
  by (intro quiet_bind keeps_if keeps_quiet keeps_hSet) simp

lemma keeps_ask_email: "keeps (quiet (sessionKey sender)) (ask_email e sender text s)"
  unfolding ask_email_def
  by (intro quiet_bind quiet_try keeps_if keeps_quiet keeps_hSet) simp

lemma keeps_settled:
  "keeps (settled key) (ret x)"
  "keeps (settled key) (sendText e to body)"
  by (rule quiet_keeps_settled, rule keeps_quiet)+

lemma keeps_ask_code: "keeps (settled (sessionKey sender)) (ask_code e sender text s)"
proof -
  let ?key = "sessionKey sender"
  have claimed: "keeps (settled ?key) (io_bind (del e ?key) (\<lambda>_. sendText e sender t))" for t
    by (rule settled_bind_silent, rule keeps_del, rule keeps_silent)
  have claim: "keeps (settled ?key)
      (io_bind (hSet e ?key [(''code'', c)]) (\<lambda>_.
       io_bind (interleave e) (\<lambda>_.
       io_bind (updateCodeInDatabase e p n m ci c) (\<lambda>updateSuccess.
       if updateSuccess then io_bind (del e ?key) (\<lambda>_. sendText e sender t1)
       else sendText e sender t2))))" for c p n m ci t1 t2
    by (intro settle_bind keeps_hSet keeps_quiet keeps_if claimed keeps_settled) simp
  have lookup: "keeps (settled ?key)
      (io_bind (select_active_code e c) (\<lambda>result.
         if length result > 0 then
           io_bind (hSet e ?key [(''code'', c)]) (\<lambda>_.
           io_bind (interleave e) (\<lambda>_.
           io_bind (updateCodeInDatabase e p n m ci c) (\<lambda>updateSuccess.
           if updateSuccess then io_bind (del e ?key) (\<lambda>_. sendText e sender t1)
           else sendText e sender t2)))
         else sendText e sender t3))" for c p n m ci t1 t2 t3
    by (rule settle_bind, rule keeps_quiet, rule keeps_if, rule claim, rule keeps_settled)
  have valid: "keeps (settled ?key)
      (io_bind
        (try_catch
          (io_bind (select_active_code e c) (\<lambda>result.
             if length result > 0 then
               io_bind (hSet e ?key [(''code'', c)]) (\<lambda>_.
               io_bind (interleave e) (\<lambda>_.
               io_bind (updateCodeInDatabase e p n m ci c) (\<lambda>updateSuccess.
               if updateSuccess then io_bind (del e ?key) (\<lambda>_. sendText e sender t1)
               else sendText e sender t2)))
             else sendText e sender t3))
          (\<lambda>err. sendText e sender t4))
        (\<lambda>_. ret 200))" for c p n m ci t1 t2 t3 t4
    by (rule settled_bind_silent, rule settled_try_silent, rule lookup, rule keeps_silent,
        rule keeps_ret)
  have invalid: "keeps (settled ?key) (io_bind (sendText e sender t) (\<lambda>_. ret 200))" for t
    by (rule settle_bind, rule keeps_quiet, rule keeps_settled)
  show ?thesis
    unfolding ask_code_def
    by (rule settle_bind, rule keeps_quiet, rule keeps_if, rule invalid, rule valid)
qed

lemma webhook_settled:
  assumes "first_message body = Some msg"
      and "\<not> no_step (session_of w (sessionKey (msg_from msg)))"
      and "webhook_post e body w = (res, w')"
  shows "settled (sessionKey (msg_from msg)) w w'"
proof -
  let ?key = "sessionKey (msg_from msg)"
  let ?rest = "\<lambda>s. if s ''step'' = Some ''ASK_NAME'' then ask_name e (msg_from msg) (message_text msg) s
                else if s ''step'' = Some ''ASK_EMAIL'' then ask_email e (msg_from msg) (message_text msg) s
                else if s ''step'' = Some ''ASK_CITY'' then ask_city e (msg_from msg) (message_text msg) s
                else if s ''step'' = Some ''ASK_CODE'' then ask_code e (msg_from msg) (message_text msg) s
                else ret 200"
  have rest: "keeps (settled ?key) (?rest s)" for s
    by (intro keeps_if quiet_keeps_settled [OF keeps_ask_name]
        quiet_keeps_settled [OF keeps_ask_email]
        quiet_keeps_settled [OF keeps_ask_city] keeps_ask_code keeps_settled)
  have run: "io_bind (hGetAll e ?key) (\<lambda>s. if no_step s then raise RedisError else ?rest s) w = (res, w')"
  proof (cases "fails e (length (trace w))")
    case True
    with assms(1,3) show ?thesis
      by (simp add: webhook_post_def io_bind_def hGetAll_def external_def Let_def)
  next
    case False
    have so: "session_of (w\<lparr>trace := trace w @ [HGetAll ?key]\<rparr>) ?key = session_of w ?key"
      by (simp add: session_of_def)
    from False assms show ?thesis
      by (simp add: webhook_post_def io_bind_def hGetAll_def external_def Let_def so)
  qed
  have "keeps (settled ?key) (io_bind (hGetAll e ?key) (\<lambda>s. if no_step s then raise RedisError else ?rest s))"
    by (rule settle_bind, rule silent_keeps_quiet [OF keeps_silent(1)],
        rule keeps_if, rule quiet_keeps_settled [OF silent_keeps_quiet [OF keeps_raise]],
        rule rest)
  with run show ?thesis
    unfolding keeps_def by blast
qed

lemma silent_keeps_apart: "keeps silent m \<Longrightarrow> keeps (apart key) m"
  by (auto simp: keeps_def silent_def extends_def apart_def)

lemma settled_keeps_apart: "keeps (settled key) m \<Longrightarrow> keeps (apart key) m"
  by (auto simp: keeps_def intro: settled_apart)

lemma keeps_apart:
  "keeps (apart key) (ret x)"
  "keeps (apart key) (hGetAll e key)"
  "keeps (apart key) (sendText e to body)"
  "keeps (apart key) (hSet e key fvs)"
  "keeps (apart key) (expire e key secs)"
proof -
  show "keeps (apart key) (ret x)" "keeps (apart key) (hGetAll e key)"
    "keeps (apart key) (sendText e to body)"
    by (rule silent_keeps_apart, rule keeps_ret keeps_silent)+
  show "keeps (apart key) (hSet e key fvs)"
    unfolding hSet_def by (rule keeps_external; simp add: rel_defs)
  show "keeps (apart key) (expire e key secs)"
    unfolding expire_def by (rule keeps_external; simp add: rel_defs split: option.splits)
qed

lemma webhook_apart:
  assumes "first_message body = Some msg"
  shows "keeps (apart (sessionKey (msg_from msg))) (webhook_post e body)"
  unfolding webhook_post_def Let_def using assms
  by (simp del: One_nat_def)
     (intro apart_bind keeps_if keeps_apart settled_keeps_apart [OF keeps_ask_code]
        settled_keeps_apart [OF quiet_keeps_settled [OF keeps_ask_name]]
        settled_keeps_apart [OF quiet_keeps_settled [OF keeps_ask_email]]
        settled_keeps_apart [OF quiet_keeps_settled [OF keeps_ask_city]])

lemma webhook_grows:
  assumes "webhook_post e body w = (res, w')"
  shows "clock w' = clock w \<and> traced w w'"
proof (cases "first_message body")
  case None
  with assms show ?thesis
    by (simp add: webhook_post_def ret_def traced_refl)
next
  case (Some msg)
  from webhook_apart [OF Some, of e] assms show ?thesis
    by (auto simp: keeps_def apart_def)
qed

lemma elapse_facts:
  "trace (elapse gap w) = trace w"
  "clock (elapse gap w) = clock w + gap"
  "deadline w key = Some d \<Longrightarrow> clock w + gap < d \<Longrightarrow> deadline (elapse gap w) key = Some d"
  "deadline w key = Some d \<Longrightarrow> clock w + gap < d \<Longrightarrow> session_of (elapse gap w) key = session_of w key"
  by (simp_all add: elapse_def expired_def session_of_def)

lemma conversation_grows:
  "traced w (conversation steps w) \<and> clock w \<le> clock (conversation steps w)"
proof (induction steps arbitrary: w)
  case Nil
  show ?case by (simp add: traced_refl)
next
  case (Cons step rest)
  obtain gap e body where step: "step = (gap, e, body)" by (cases step) auto
  let ?w1 = "elapse gap w"
  let ?w2 = "snd (webhook_post e body ?w1)"
  have g: "clock ?w2 = clock ?w1 \<and> traced ?w1 ?w2"
    by (rule webhook_grows [OF surjective_pairing])
  then have t: "traced w ?w2"
    by (simp add: traced_def new_events_def elapse_facts)
  from traced_trans(1) [OF t] Cons.IH [of ?w2] g show ?case
    by (simp add: step elapse_facts)
qed

lemma sessionKey_inj: "sessionKey a = sessionKey b \<Longrightarrow> a = b"
  by (simp add: sessionKey_def)

lemma request_alive:
  assumes "deadline w (sessionKey sender) = Some d"
      and "\<not> no_step (session_of w (sessionKey sender))"
      and "webhook_post e body w = (res, w')"
  shows "deadline w' (sessionKey sender) = Some d \<and> \<not> no_step (session_of w' (sessionKey sender)) \<or>
         Del (sessionKey sender) \<in> set (new_events w w')"
proof (cases "first_message body")
  case None
  with assms show ?thesis
    by (simp add: webhook_post_def ret_def)
next
  case (Some msg)
  show ?thesis
  proof (cases "msg_from msg = sender")
    case True
    with webhook_settled [OF Some _ assms(3)] assms(1,2) show ?thesis
      by (auto simp: settled_def)
  next
    case False
    then have "sessionKey sender \<noteq> sessionKey (msg_from msg)"
      by (auto dest: sessionKey_inj)
    with webhook_apart [OF Some, of e] assms show ?thesis
      by (auto simp: keeps_def apart_def session_of_def)
  qed
qed

lemma conversation_alive:
  assumes "deadline w (sessionKey sender) = Some d"
      and "\<not> no_step (session_of w (sessionKey sender))"
      and "clock (conversation steps w) < d"
  shows "deadline (conversation steps w) (sessionKey sender) = Some d \<and>
           \<not> no_step (session_of (conversation steps w) (sessionKey sender)) \<or>
         Del (sessionKey sender) \<in> set (new_events w (conversation steps w))"
  using assms
proof (induction steps arbitrary: w)
  case Nil
  then show ?case by simp
next
  case (Cons step rest)
  obtain gap e body where step: "step = (gap, e, body)" by (cases step) auto
  let ?key = "sessionKey sender"
  let ?w1 = "elapse gap w"
  let ?w2 = "snd (webhook_post e body ?w1)"
  let ?w3 = "conversation rest ?w2"
  have fin: "conversation (step # rest) w = ?w3"
    by (simp add: step)
  have g: "clock ?w2 = clock ?w1" "traced ?w1 ?w2"
    using webhook_grows [OF surjective_pairing, of e body ?w1] by simp_all
  have c: "traced ?w2 ?w3" "clock ?w2 \<le> clock ?w3"
    using conversation_grows [of ?w2 rest] by simp_all
  from Cons.prems(3) g c have early: "clock w + gap < d"
    by (simp add: fin elapse_facts)
  have ev: "new_events w ?w3 = new_events ?w1 ?w2 @ new_events ?w2 ?w3"
    using traced_trans(2) [OF g(2) c(1)] by (simp add: new_events_def elapse_facts)
  from Cons.prems(1,2) early have a1: "deadline ?w1 ?key = Some d" "\<not> no_step (session_of ?w1 ?key)"
    by (simp_all add: elapse_facts)
  from request_alive [OF a1 surjective_pairing, of e body]
  show ?case
  proof
    assume "deadline ?w2 ?key = Some d \<and> \<not> no_step (session_of ?w2 ?key)"
    with Cons.IH [of ?w2] Cons.prems(3) show ?thesis
      by (auto simp: fin ev)
  next
    assume "Del ?key \<in> set (new_events ?w1 ?w2)"
    then show ?thesis
      by (simp add: fin ev)
  qed
qed

text \<open>
  C9. A request that finds a step in the session adds no call of \<open>expire\<close> to the trace,
  in any environment, and leaves every deadline as it was, or has removed it together with
  the session it belonged to: \<open>hSet\<close> does not touch the deadline, so no step transition
  restarts the thirty minutes. The welcome transition, in a reliable environment, calls
  \<open>expire\<close> exactly once and sets the deadline to thirty minutes after the current time.
  Whatever requests follow, from whatever senders and in whatever environments, as long as
  those thirty minutes have not passed the deadline of the session is still the one set by
  the first message, unless a call of \<open>del\<close> has ended the conversation.
\<close>

theorem expiry_set_on_welcome_only:
  assumes "first_message body = Some msg"
      and "webhook_post e body w = (res, w')"
  shows "(\<not> no_step (session_of w (sessionKey (msg_from msg))) \<longrightarrow>
            (\<exists>evs. trace w' = trace w @ evs \<and> (\<forall>ev \<in> set evs. \<not> is_expire ev)) \<and>
            (\<forall>k. deadline w' k = deadline w k \<or> deadline w' k = None \<and> sessions w' k = None)) \<and>
         (no_step (session_of w (sessionKey (msg_from msg))) \<and> reliable e \<longrightarrow>
            (\<exists>evs. trace w' = trace w @ evs \<and>
                   filter is_expire evs = [Expire (sessionKey (msg_from msg)) (30 * 60)]) \<and>
            deadline w' (sessionKey (msg_from msg)) = Some (clock w + 30 * 60) \<and>
            (\<forall>steps. clock (conversation steps w') < clock w + 30 * 60 \<longrightarrow>
               (\<exists>evs. trace (conversation steps w') = trace w' @ evs \<and>
                  (deadline (conversation steps w') (sessionKey (msg_from msg)) =
                     Some (clock w + 30 * 60) \<or>
                   Del (sessionKey (msg_from msg)) \<in> set evs))))"
proof -
  let ?key = "sessionKey (msg_from msg)"
  have a: "\<not> no_step (session_of w ?key) \<longrightarrow>
            (\<exists>evs. trace w' = trace w @ evs \<and> (\<forall>ev \<in> set evs. \<not> is_expire ev)) \<and>
            (\<forall>k. deadline w' k = deadline w k \<or> deadline w' k = None \<and> sessions w' k = None)"
  proof (rule impI)
    assume "\<not> no_step (session_of w ?key)"
    from webhook_settled [OF assms(1) this assms(2)] have st: "settled ?key w w'" .
    then have "trace w' = trace w @ new_events w w' \<and> (\<forall>ev \<in> set (new_events w w'). \<not> is_expire ev)"
      by (simp add: settled_def extends_def traced_def)
    then have t: "\<exists>evs. trace w' = trace w @ evs \<and> (\<forall>ev \<in> set evs. \<not> is_expire ev)"
      by blast
    have d: "\<forall>k. deadline w' k = deadline w k \<or> deadline w' k = None \<and> sessions w' k = None"
    proof
      fix k
      show "deadline w' k = deadline w k \<or> deadline w' k = None \<and> sessions w' k = None"
        using st by (cases "k = ?key") (auto simp: settled_def)
    qed
    from t d show "(\<exists>evs. trace w' = trace w @ evs \<and> (\<forall>ev \<in> set evs. \<not> is_expire ev)) \<and>
        (\<forall>k. deadline w' k = deadline w k \<or> deadline w' k = None \<and> sessions w' k = None)"
      by (rule conjI)
  qed
  have b: "no_step (session_of w ?key) \<and> reliable e \<longrightarrow>
            (\<exists>evs. trace w' = trace w @ evs \<and> filter is_expire evs = [Expire ?key (30 * 60)]) \<and>
            deadline w' ?key = Some (clock w + 30 * 60) \<and>
            (\<forall>steps. clock (conversation steps w') < clock w + 30 * 60 \<longrightarrow>
               (\<exists>evs. trace (conversation steps w') = trace w' @ evs \<and>
                  (deadline (conversation steps w') ?key = Some (clock w + 30 * 60) \<or>
                   Del ?key \<in> set evs)))"
  proof (rule impI)
    assume h: "no_step (session_of w ?key) \<and> reliable e"
    then have n: "no_step (session_of w ?key)" and r: "reliable e"
      by simp_all
    note wl = welcome_reliable [OF assms(1) n r assms(2)]
    let ?evs = "[HGetAll ?key, SendText (msg_from msg) welcome_text,
          HSet ?key [(''step'', ''ASK_NAME''), (''phone'', msg_from msg)], Expire ?key (30 * 60)]"
    from wl have "trace w' = trace w @ ?evs \<and> filter is_expire ?evs = [Expire ?key (30 * 60)]"
      by simp
    then have t: "\<exists>evs. trace w' = trace w @ evs \<and> filter is_expire evs = [Expire ?key (30 * 60)]"
      by blast
    from wl have d: "deadline w' ?key = Some (clock w + 30 * 60)"
      by simp
    from wl have s: "\<not> no_step (session_of w' ?key)"
      by (simp add: no_step_def)
    have c: "\<forall>steps. clock (conversation steps w') < clock w + 30 * 60 \<longrightarrow>
               (\<exists>evs. trace (conversation steps w') = trace w' @ evs \<and>
                  (deadline (conversation steps w') ?key = Some (clock w + 30 * 60) \<or>
                   Del ?key \<in> set evs))"
    proof (intro allI impI)
      fix steps
      assume early: "clock (conversation steps w') < clock w + 30 * 60"
      from conversation_alive [OF d s early]
      have "deadline (conversation steps w') ?key = Some (clock w + 30 * 60) \<or>
            Del ?key \<in> set (new_events w' (conversation steps w'))"
        by blast
      moreover from conversation_grows [of w' steps]
      have "trace (conversation steps w') = trace w' @ new_events w' (conversation steps w')"
        by (simp add: traced_def)
      ultimately show "\<exists>evs. trace (conversation steps w') = trace w' @ evs \<and>
          (deadline (conversation steps w') ?key = Some (clock w + 30 * 60) \<or> Del ?key \<in> set evs)"
        by blast
    qed
    from t d c show "(\<exists>evs. trace w' = trace w @ evs \<and> filter is_expire evs = [Expire ?key (30 * 60)]) \<and>
            deadline w' ?key = Some (clock w + 30 * 60) \<and>
            (\<forall>steps. clock (conversation steps w') < clock w + 30 * 60 \<longrightarrow>
               (\<exists>evs. trace (conversation steps w') = trace w' @ evs \<and>
                  (deadline (conversation steps w') ?key = Some (clock w + 30 * 60) \<or>
                   Del ?key \<in> set evs)))"
      by (intro conjI)
  qed
  show ?thesis
    by (rule conjI [OF a b])
qed

lemmas eval_defs = run_defs external_def store_defs validateWithOpenAI_eq verdict_def echo_env_def
  env0_def world0_def session_world_def text_event_def first_message_def message_text_def
  trim_def is_space_def elapse_def expired_def sessionKey_def reliable_def

theorem expiry_set_on_welcome_only_witness:
  "first_message (text_event ''+911234567'' ''hello'') =
     Some \<lparr>msg_from = ''+911234567'', msg_text_body = Some ''hello''\<rparr> \<and>
   no_step (session_of world0 (sessionKey ''+911234567'')) \<and> reliable env0 \<and>
   deadline (snd (webhook_post env0 (text_event ''+911234567'' ''hello'') world0))
     (sessionKey ''+911234567'') = Some 1800 \<and>
   clock (conversation [(600, echo_env True ''Thanks! What is your email?'',
                         text_event ''+911234567'' ''John Doe'')]
           (snd (webhook_post env0 (text_event ''+911234567'' ''hello'') world0)))
     < clock world0 + 30 * 60 \<and>
   deadline (conversation [(600, echo_env True ''Thanks! What is your email?'',
                            text_event ''+911234567'' ''John Doe'')]
              (snd (webhook_post env0 (text_event ''+911234567'' ''hello'') world0)))
     (sessionKey ''+911234567'') = Some 1800 \<and>
   first_message (text_event ''+911234567'' ''John Doe'') =
     Some \<lparr>msg_from = ''+911234567'', msg_text_body = Some ''John Doe''\<rparr> \<and>
   \<not> no_step (session_of
        (elapse 600 (session_world ''+911234567'' [(''step'', ''ASK_NAME''), (''phone'', ''+911234567'')] []))
        (sessionKey ''+911234567'')) \<and>
   deadline (snd (webhook_post (echo_env True ''Thanks! What is your email?'')
        (text_event ''+911234567'' ''John Doe'')
        (elapse 600 (session_world ''+911234567'' [(''step'', ''ASK_NAME''), (''phone'', ''+911234567'')] []))))
      (sessionKey ''+911234567'') = Some 1800"
proof -
  let ?e = "echo_env True ''Thanks! What is your email?''"
  let ?w = "elapse 600 (session_world ''+911234567'' [(''step'', ''ASK_NAME''), (''phone'', ''+911234567'')] [])"
  let ?steps = "[(600, ?e, text_event ''+911234567'' ''John Doe'')]"
  let ?w1 = "snd (webhook_post env0 (text_event ''+911234567'' ''hello'') world0)"
  have z: "no_step (session_of world0 (sessionKey ''+911234567''))" "reliable env0"
    by (simp_all add: no_step_def session_of_def world0_def reliable_def env0_def)
  have n: "\<not> no_step (session_of ?w (sessionKey ''+911234567''))"
    by (simp add: no_step_def session_of_def elapse_def expired_def session_world_def world0_def)
  have c: "clock (conversation ?steps ?w1) < clock world0 + 30 * 60"
    by (simp add: eval_defs)
  have t: "trace (conversation ?steps ?w1) = trace ?w1 @
      [HGetAll (sessionKey ''+911234567''), ChatCompletion ''ASK_NAME'' ''John Doe'',
       SendText ''+911234567'' ''Thanks! What is your email?'',
       HSet (sessionKey ''+911234567'') [(''step'', ''ASK_EMAIL''), (''name'', ''John Doe'')]]"
    by (simp add: eval_defs)
  have s: "sessions (snd (webhook_post ?e (text_event ''+911234567'' ''John Doe'') ?w))
      (sessionKey ''+911234567'') \<noteq> None"
    by (simp add: eval_defs)
  have d: "deadline ?w (sessionKey ''+911234567'') = Some 1800"
    by (simp add: eval_defs)
  note first = expiry_set_on_welcome_only [where e = env0 and w = world0,
      OF john_message surjective_pairing]
  note later = expiry_set_on_welcome_only [where e = ?e and w = ?w,
      OF john_message surjective_pairing]
  from first z have d1: "deadline ?w1 (sessionKey ''+911234567'') = Some 1800"
    by (simp add: world0_def)
  from first z c obtain evs where evs: "trace (conversation ?steps ?w1) = trace ?w1 @ evs"
    "deadline (conversation ?steps ?w1) (sessionKey ''+911234567'') = Some (clock world0 + 30 * 60) \<or>
     Del (sessionKey ''+911234567'') \<in> set evs"
    by (metis wa_message.select_convs(1))
  from evs(1) t have "evs = [HGetAll (sessionKey ''+911234567''), ChatCompletion ''ASK_NAME'' ''John Doe'',
       SendText ''+911234567'' ''Thanks! What is your email?'',
       HSet (sessionKey ''+911234567'') [(''step'', ''ASK_EMAIL''), (''name'', ''John Doe'')]]"
    by simp
  with evs(2) have d2: "deadline (conversation ?steps ?w1) (sessionKey ''+911234567'') = Some 1800"
    by (simp add: world0_def)
  from later n have "deadline (snd (webhook_post ?e (text_event ''+911234567'' ''John Doe'') ?w))
        (sessionKey ''+911234567'') = deadline ?w (sessionKey ''+911234567'') \<or>
      deadline (snd (webhook_post ?e (text_event ''+911234567'' ''John Doe'') ?w))
        (sessionKey ''+911234567'') = None \<and>
      sessions (snd (webhook_post ?e (text_event ''+911234567'' ''John Doe'') ?w))
        (sessionKey ''+911234567'') = None"
    by (metis wa_message.select_convs(1))
  with s d have d3: "deadline (snd (webhook_post ?e (text_event ''+911234567'' ''John Doe'') ?w))
        (sessionKey ''+911234567'') = Some 1800"
    by auto
  from z n c d1 d2 d3 show ?thesis
    by (simp add: john_message)
qed

end
